theory Spec2Isabelle
  imports Main "HOL-Library.Word"
begin

section \<open>Data model\<close>

text \<open>
  The per-channel memory controller of \<^verbatim>\<open>src/controller.cc\<close>. Addresses and clock
  cycles are \<^verbatim>\<open>uint64_t\<close>: 64-bit words, whose \<open>+\<close> wraps as the C++ does.
\<close>

type_synonym u64 = "64 word"

text \<open>
  Modelled from the spec: \<^verbatim>\<open>struct Transaction\<close> (declared in common.h, which is not in
  the source file). The fields are the ones controller.cc reads and writes.
\<close>

record Transaction =
  addr :: u64
  added_cycle :: u64
  complete_cycle :: u64
  is_write :: bool
  is_MRS :: bool
  payload :: "u64 list"

text \<open>
  Modelled from the spec: \<^verbatim>\<open>Transaction::updatePayload\<close> (common.h) overwrites the
  payload of the transaction with the given words.
\<close>

definition updatePayload :: "u64 list \<Rightarrow> Transaction \<Rightarrow> Transaction" where
  "updatePayload p t = t\<lparr>payload := p\<rparr>"

text \<open>
  Modelled from the spec: \<^verbatim>\<open>CommandType\<close>, \<^verbatim>\<open>Address\<close> and \<^verbatim>\<open>Command\<close> (common.h).
  \<open>MRS_CMD\<close> is \<^verbatim>\<open>CommandType::MRS\<close>. \<open>SIZE\<close> is the type of a default-constructed
  command, the one that is not valid (the spec's \<open>cmd | invalid\<close>).
\<close>

datatype CommandType =
  READ | READ_PRECHARGE | WRITE | WRITE_PRECHARGE | ACTIVATE | PRECHARGE
  | REFRESH_BANK | REFRESH | SREF_ENTER | SREF_EXIT | MRS_CMD | SIZE

record Address =
  channel :: int
  rank :: int
  bankgroup :: int
  bank :: int
  row :: int
  column :: int

record Command =
  cmd_type :: CommandType
  cmd_addr :: Address
  hex_addr :: u64

text \<open>
  Modelled from the spec: the member functions of \<^verbatim>\<open>Command\<close> (common.h) that
  controller.cc calls. A read command is \<^verbatim>\<open>READ\<close> or \<^verbatim>\<open>READ_PRECHARGE\<close>, a write
  command is \<^verbatim>\<open>WRITE\<close> or \<^verbatim>\<open>WRITE_PRECHARGE\<close>; \<^verbatim>\<open>Rank()\<close>, \<^verbatim>\<open>Bankgroup()\<close> and
  \<^verbatim>\<open>Bank()\<close> read the decoded address. \<^verbatim>\<open>IsReadWrite()\<close> is not defined here: the
  spec does not say of which commands it holds, and it is a parameter of the
  environment below.
\<close>

definition IsValid :: "Command \<Rightarrow> bool" where
  "IsValid c = (cmd_type c \<noteq> SIZE)"

definition IsRead :: "Command \<Rightarrow> bool" where
  "IsRead c = (cmd_type c = READ \<or> cmd_type c = READ_PRECHARGE)"

definition IsWrite :: "Command \<Rightarrow> bool" where
  "IsWrite c = (cmd_type c = WRITE \<or> cmd_type c = WRITE_PRECHARGE)"

definition IsMRSCMD :: "Command \<Rightarrow> bool" where
  "IsMRSCMD c = (cmd_type c = MRS_CMD)"

definition Rank :: "Command \<Rightarrow> int" where
  "Rank c = rank (cmd_addr c)"

definition Bankgroup :: "Command \<Rightarrow> int" where
  "Bankgroup c = bankgroup (cmd_addr c)"

definition Bank :: "Command \<Rightarrow> int" where
  "Bank c = bank (cmd_addr c)"

datatype RowBufPolicy = OPEN_PAGE | CLOSE_PAGE

text \<open>
  The values of \<^verbatim>\<open>Config\<close> that controller.cc reads (configuration.h is not in the
  source file, so they are parameters). \<open>trans_queue_size\<close> is the argument of
  \<^verbatim>\<open>reserve\<close>, a size.
\<close>

record Config =
  cfg_unified_queue :: bool
  cfg_row_buf_policy :: string
  trans_queue_size :: nat
  is_LRDIMM :: bool
  enable_hbm_dual_cmd :: bool
  enable_self_refresh :: bool
  ranks :: int
  sref_threshold :: int
  read_delay :: int
  tPDM_RD :: int
  tRPRE :: int
  AddressMapping :: "u64 \<Rightarrow> Address"

text \<open>
  A \<^verbatim>\<open>std::vector<Transaction>\<close> whose capacity the code compares with its size: the
  elements and the capacity. \<^verbatim>\<open>push_back\<close> on a full vector reallocates; the new
  capacity is the implementation's choice (a parameter) and covers the new size.
\<close>

record TransVec =
  items :: "Transaction list"
  capacity :: nat

definition vsize :: "TransVec \<Rightarrow> nat" where
  "vsize v = length (items v)"

definition reserve :: "nat \<Rightarrow> TransVec \<Rightarrow> TransVec" where
  "reserve n v = (if capacity v < n then v\<lparr>capacity := n\<rparr> else v)"

definition push_back :: "(nat \<Rightarrow> nat) \<Rightarrow> Transaction \<Rightarrow> TransVec \<Rightarrow> TransVec" where
  "push_back grow x v =
     \<lparr>items = items v @ [x],
      capacity = (if vsize v < capacity v then capacity v
                  else max (Suc (vsize v)) (grow (capacity v)))\<rparr>"

definition erase_at :: "nat \<Rightarrow> TransVec \<Rightarrow> TransVec" where
  "erase_at i v = v\<lparr>items := take i (items v) @ drop (Suc i) (items v)\<rparr>"

text \<open>
  \<^verbatim>\<open>pending_rd_q_\<close> and \<^verbatim>\<open>pending_wr_q_\<close> are keyed containers that the code only
  reaches through \<^verbatim>\<open>count\<close>, \<^verbatim>\<open>find\<close>, \<^verbatim>\<open>insert\<close> and \<^verbatim>\<open>erase(iterator)\<close>. They are
  association lists in insertion order: \<open>insert\<close> appends (a new entry goes behind
  the entries of the same key), \<open>find\<close> yields the first entry of the key (the
  entry that \<^verbatim>\<open>std::multimap::find\<close> of the common standard libraries yields). Both
  lists can hold several entries of one key, so that "at most one entry" is a
  property of the code and not of the type; the code calls \<open>insert\<close> on
  \<^verbatim>\<open>pending_wr_q_\<close> only for a key that is absent, where a map and a multimap agree.
\<close>

type_synonym pending_q = "(u64 \<times> Transaction) list"

definition mm_count :: "pending_q \<Rightarrow> u64 \<Rightarrow> nat" where
  "mm_count m k = length (filter (\<lambda>e. fst e = k) m)"

definition mm_insert :: "u64 \<Rightarrow> Transaction \<Rightarrow> pending_q \<Rightarrow> pending_q" where
  "mm_insert k t m = m @ [(k, t)]"

fun mm_find :: "pending_q \<Rightarrow> u64 \<Rightarrow> Transaction option" where
  "mm_find [] k = None"
| "mm_find (e # m) k = (if fst e = k then Some (snd e) else mm_find m k)"

fun mm_erase :: "u64 \<Rightarrow> pending_q \<Rightarrow> pending_q" where
  "mm_erase k [] = []"
| "mm_erase k (e # m) = (if fst e = k then m else e # mm_erase k m)"

fun mm_update :: "u64 \<Rightarrow> (Transaction \<Rightarrow> Transaction) \<Rightarrow> pending_q \<Rightarrow> pending_q" where
  "mm_update k f [] = []"
| "mm_update k f (e # m) = (if fst e = k then (fst e, f (snd e)) # m else e # mm_update k f m)"

text \<open>
  How a run of the simulator can stop: a failed \<^verbatim>\<open>assert\<close>, \<^verbatim>\<open>exit(1)\<close>,
  \<^verbatim>\<open>AbruptExit\<close>, and the dereference of an \<^verbatim>\<open>end()\<close> iterator.
\<close>

datatype error = AssertFailed | Exit1 | AbruptExit | Undefined

text \<open>
  The collaborators of the controller (\<^verbatim>\<open>CommandQueue\<close>, \<^verbatim>\<open>ChannelState\<close>,
  \<^verbatim>\<open>Refresh\<close>, the on-board buffer) are not in the source file. Their joint state is
  a value of the type \<open>'w\<close> and their member functions are parameters: a function
  that only reads takes the state, one that changes it returns the new state.
  \<open>IsReadWrite\<close> is the predicate of \<^verbatim>\<open>Command\<close> of that name; \<open>vector_growth\<close> is
  the reallocation policy of \<^verbatim>\<open>std::vector\<close>. The statistics sink only receives
  values and is left out.
\<close>

record 'w Env =
  cfg :: Config
  vector_growth :: "nat \<Rightarrow> nat"
  Address_default :: Address
  IsReadWrite :: "Command \<Rightarrow> bool"
  refresh_ClockTick :: "'w \<Rightarrow> 'w"
  updateBoB :: "'w \<Rightarrow> 'w"
  getRDResp :: "'w \<Rightarrow> (Command \<times> u64 list) \<times> 'w"
  recDDRcmd :: "Command \<Rightarrow> 'w \<Rightarrow> 'w"
  enqueWRData :: "int \<Rightarrow> u64 \<Rightarrow> u64 list \<Rightarrow> 'w \<Rightarrow> 'w"
  IsRefreshWaiting :: "'w \<Rightarrow> bool"
  IsRankSelfRefreshing :: "'w \<Rightarrow> int \<Rightarrow> bool"
  IsAllBankIdleInRank :: "'w \<Rightarrow> int \<Rightarrow> bool"
  rank_idle_cycles :: "'w \<Rightarrow> int \<Rightarrow> int"
  set_rank_idle_cycles :: "int \<Rightarrow> int \<Rightarrow> 'w \<Rightarrow> 'w"
  GetReadyCommand :: "'w \<Rightarrow> Command \<Rightarrow> u64 \<Rightarrow> Command"
  UpdateTimingAndStates :: "Command \<Rightarrow> u64 \<Rightarrow> 'w \<Rightarrow> 'w"
  FinishRefresh :: "'w \<Rightarrow> Command \<times> 'w"
  GetCommandToIssue :: "'w \<Rightarrow> Command \<times> 'w"
  WillAcceptCommand :: "'w \<Rightarrow> int \<Rightarrow> int \<Rightarrow> int \<Rightarrow> bool"
  WillAcceptMRSCommand :: "'w \<Rightarrow> bool"
  QueueEmpty :: "'w \<Rightarrow> bool"
  rank_q_empty :: "'w \<Rightarrow> int \<Rightarrow> bool"
  AddCommand :: "Command \<Rightarrow> 'w \<Rightarrow> 'w"
  cmd_queue_ClockTick :: "'w \<Rightarrow> 'w"

text \<open>
  The members of \<^verbatim>\<open>Controller\<close>. \<^verbatim>\<open>write_draining_\<close> is a signed counter (the code
  decrements it and compares it with 0). \<open>cmd_trace\<close> is the command trace that
  \<^verbatim>\<open>IssueCommand\<close> writes (\<^verbatim>\<open>CMD_TRACE\<close>): one line, the clock and the command, for
  every issued command. \<open>cmd_queue_added\<close> records the arguments of the calls of
  \<^verbatim>\<open>cmd_queue_.AddCommand\<close> in order; the code never reads it.
\<close>

record 'w Controller =
  clk :: u64
  is_unified_queue :: bool
  row_buf_policy :: RowBufPolicy
  last_trans_clk :: u64
  write_draining :: int
  unified_queue :: TransVec
  read_queue :: TransVec
  write_buffer :: TransVec
  mrs_buffer :: TransVec
  pending_rd_q :: pending_q
  pending_wr_q :: pending_q
  return_queue :: "Transaction list"
  resp_data :: "u64 list list"
  cmd_trace :: "(u64 \<times> Command) list"
  cmd_queue_added :: "Command list"
  world :: 'w

section \<open>The operations of controller.cc\<close>

subsection \<open>Constructor\<close>

definition empty_vec :: TransVec where
  "empty_vec = \<lparr>items = [], capacity = 0\<rparr>"

definition Controller_init :: "'w Env \<Rightarrow> 'w \<Rightarrow> 'w Controller" where
  "Controller_init env w =
     (let n = trans_queue_size (cfg env); u = cfg_unified_queue (cfg env) in
      \<lparr>clk = 0,
       is_unified_queue = u,
       row_buf_policy =
         (if cfg_row_buf_policy (cfg env) = ''CLOSE_PAGE'' then CLOSE_PAGE else OPEN_PAGE),
       last_trans_clk = 0,
       write_draining = 0,
       unified_queue = (if u then reserve n empty_vec else empty_vec),
       read_queue = (if u then empty_vec else reserve n empty_vec),
       write_buffer = (if u then empty_vec else reserve n empty_vec),
       mrs_buffer = reserve n empty_vec,
       pending_rd_q = [],
       pending_wr_q = [],
       return_queue = [],
       resp_data = [],
       cmd_trace = [],
       cmd_queue_added = [],
       world = w\<rparr>)"

subsection \<open>ReturnDoneTrans\<close>

text \<open>
  The scan of \<^verbatim>\<open>return_queue_\<close>: \<open>pre\<close> holds the entries the iterator has passed.
  The result is the entry found, if any, and the queue without it.
\<close>

fun return_scan ::
  "bool \<Rightarrow> u64 \<Rightarrow> Transaction list \<Rightarrow> Transaction list
     \<Rightarrow> error + (Transaction option \<times> Transaction list)" where
  "return_scan lr c pre [] = Inr (None, pre)"
| "return_scan lr c pre (t # ts) =
     (if complete_cycle t \<le> c then
        (if lr \<and> length (payload t) = 0 then Inl AssertFailed
         else Inr (Some t, pre @ ts))
      else return_scan lr c (pre @ [t]) ts)"

definition ReturnDoneTrans ::
  "'w Env \<Rightarrow> u64 \<Rightarrow> 'w Controller \<Rightarrow> error + ((u64 \<times> int) \<times> 'w Controller)" where
  "ReturnDoneTrans env c s =
     (case return_scan (is_LRDIMM (cfg env)) c [] (return_queue s) of
        Inl e \<Rightarrow> Inl e
      | Inr (None, q) \<Rightarrow> Inr ((- 1, - 1), s)
      | Inr (Some t, q) \<Rightarrow>
          Inr ((addr t, (if is_write t then 1 else 0)),
               s\<lparr>return_queue := q,
                 resp_data := (if is_LRDIMM (cfg env) \<and> \<not> is_write t
                               then resp_data s @ [payload t] else resp_data s)\<rparr>))"

subsection \<open>GetRespData\<close>

definition GetRespData :: "'w Controller \<Rightarrow> error + (u64 list \<times> 'w Controller)" where
  "GetRespData s =
     (case resp_data s of
        [] \<Rightarrow> Inl AssertFailed
      | d # ds \<Rightarrow> Inr (d, s\<lparr>resp_data := ds\<rparr>))"

subsection \<open>WillAcceptTransaction\<close>

definition WillAcceptTransaction :: "'w Controller \<Rightarrow> u64 \<Rightarrow> bool \<Rightarrow> bool" where
  "WillAcceptTransaction s a w =
     (if is_unified_queue s then vsize (unified_queue s) < capacity (unified_queue s)
      else if \<not> w then vsize (read_queue s) < capacity (read_queue s)
      else vsize (write_buffer s) < capacity (write_buffer s))"

definition WillAcceptTransaction_MRS :: "'w Controller \<Rightarrow> u64 \<Rightarrow> bool \<Rightarrow> bool \<Rightarrow> bool" where
  "WillAcceptTransaction_MRS s a w m =
     (if m then vsize (mrs_buffer s) < capacity (mrs_buffer s)
      else if is_unified_queue s then vsize (unified_queue s) < capacity (unified_queue s)
      else if \<not> w then vsize (read_queue s) < capacity (read_queue s)
      else vsize (write_buffer s) < capacity (write_buffer s))"

text \<open>The buffer whose size \<^verbatim>\<open>WillAcceptTransaction\<close> compares with its capacity.\<close>

definition target_queue :: "'w Controller \<Rightarrow> Transaction \<Rightarrow> TransVec" where
  "target_queue s tr =
     (if is_MRS tr then mrs_buffer s
      else if is_unified_queue s then unified_queue s
      else if \<not> is_write tr then read_queue s
      else write_buffer s)"

subsection \<open>AddTransaction\<close>

definition AddTransaction ::
  "'w Env \<Rightarrow> Transaction \<Rightarrow> 'w Controller \<Rightarrow> error + (bool \<times> 'w Controller)" where
  "AddTransaction env tr0 s =
     (let tr = tr0\<lparr>added_cycle := clk s\<rparr>;
          s1 = s\<lparr>last_trans_clk := clk s\<rparr>;
          g = vector_growth env in
      if is_MRS tr then
        Inr (True,
             s1\<lparr>mrs_buffer := push_back g tr (mrs_buffer s1),
                return_queue := return_queue s1 @ [tr\<lparr>complete_cycle := clk s + 1\<rparr>]\<rparr>)
      else if is_write tr then
        (let s2 =
           (if mm_count (pending_wr_q s1) (addr tr) = 0 then
              (let s1' = s1\<lparr>pending_wr_q := mm_insert (addr tr) tr (pending_wr_q s1)\<rparr> in
               if is_unified_queue s1'
               then s1'\<lparr>unified_queue := push_back g tr (unified_queue s1')\<rparr>
               else s1'\<lparr>write_buffer := push_back g tr (write_buffer s1')\<rparr>)
            else
              s1\<lparr>pending_wr_q :=
                   mm_update (addr tr) (updatePayload (payload tr)) (pending_wr_q s1)\<rparr>)
         in Inr (True,
                 s2\<lparr>return_queue := return_queue s2 @ [tr\<lparr>complete_cycle := clk s + 1\<rparr>]\<rparr>))
      else if mm_count (pending_wr_q s1) (addr tr) > 0 then
        (let tr1 = tr\<lparr>complete_cycle := clk s + 1\<rparr> in
         case mm_find (pending_wr_q s1) (addr tr) of
           None \<Rightarrow> Inl Undefined
         | Some pending_wr \<Rightarrow>
             if mm_count (pending_wr_q s1) (addr tr) \<noteq> 1 then Inl AssertFailed
             else Inr (True,
                       s1\<lparr>return_queue :=
                            return_queue s1 @ [updatePayload (payload pending_wr) tr1]\<rparr>))
      else
        (let s2 = s1\<lparr>pending_rd_q := mm_insert (addr tr) tr (pending_rd_q s1)\<rparr> in
         Inr (True,
              if mm_count (pending_rd_q s2) (addr tr) = 1 then
                (if is_unified_queue s2
                 then s2\<lparr>unified_queue := push_back g tr (unified_queue s2)\<rparr>
                 else s2\<lparr>read_queue := push_back g tr (read_queue s2)\<rparr>)
              else s2)))"

subsection \<open>TransToCommand\<close>

definition TransToCommand :: "'w Env \<Rightarrow> 'w Controller \<Rightarrow> Transaction \<Rightarrow> Command" where
  "TransToCommand env s tr =
     (let a = AddressMapping (cfg env) (addr tr);
          t = (if row_buf_policy s = OPEN_PAGE
               then (if is_write tr then WRITE else READ)
               else (if is_write tr then WRITE_PRECHARGE else READ_PRECHARGE));
          t' = (if is_MRS tr then MRS_CMD else t)
      in \<lparr>cmd_type = t', cmd_addr = a, hex_addr = addr tr\<rparr>)"

subsection \<open>ScheduleTransaction\<close>

datatype QueueSel = MRS_BUFFER | UNIFIED_QUEUE | WRITE_BUFFER | READ_QUEUE

fun sel_queue :: "QueueSel \<Rightarrow> 'w Controller \<Rightarrow> TransVec" where
  "sel_queue MRS_BUFFER s = mrs_buffer s"
| "sel_queue UNIFIED_QUEUE s = unified_queue s"
| "sel_queue WRITE_BUFFER s = write_buffer s"
| "sel_queue READ_QUEUE s = read_queue s"

fun queue_erase :: "QueueSel \<Rightarrow> nat \<Rightarrow> 'w Controller \<Rightarrow> 'w Controller" where
  "queue_erase MRS_BUFFER i s = s\<lparr>mrs_buffer := erase_at i (mrs_buffer s)\<rparr>"
| "queue_erase UNIFIED_QUEUE i s = s\<lparr>unified_queue := erase_at i (unified_queue s)\<rparr>"
| "queue_erase WRITE_BUFFER i s = s\<lparr>write_buffer := erase_at i (write_buffer s)\<rparr>"
| "queue_erase READ_QUEUE i s = s\<lparr>read_queue := erase_at i (read_queue s)\<rparr>"

definition cmd_queue_AddCommand :: "'w Env \<Rightarrow> Command \<Rightarrow> 'w Controller \<Rightarrow> 'w Controller" where
  "cmd_queue_AddCommand env cmd s =
     s\<lparr>world := AddCommand env cmd (world s),
       cmd_queue_added := cmd_queue_added s @ [cmd]\<rparr>"

text \<open>The write-drain thresholds, the first statement of \<^verbatim>\<open>ScheduleTransaction\<close>.\<close>

definition drain_start :: "'w Env \<Rightarrow> 'w Controller \<Rightarrow> 'w Controller" where
  "drain_start env s =
     (if write_draining s = 0 \<and> \<not> is_unified_queue s then
        (if vsize (write_buffer s) \<ge> capacity (write_buffer s)
            \<or> (vsize (write_buffer s) > 8 \<and> QueueEmpty env (world s))
         then s\<lparr>write_draining := int (vsize (write_buffer s))\<rparr>
         else s)
      else s)"

text \<open>
  The loop over the selected queue: \<open>i\<close> is the position of the iterator, the list
  holds the elements from there on. Every path but the last one leaves the loop.
\<close>

fun schedule_walk ::
  "'w Env \<Rightarrow> bool \<Rightarrow> QueueSel \<Rightarrow> nat \<Rightarrow> Transaction list \<Rightarrow> 'w Controller \<Rightarrow> 'w Controller" where
  "schedule_walk env pop q i [] s = s"
| "schedule_walk env pop q i (t # ts) s =
     (let cmd = TransToCommand env s t in
      if pop then
        (if WillAcceptMRSCommand env (world s)
         then queue_erase q i (cmd_queue_AddCommand env cmd s)
         else s)
      else if WillAcceptCommand env (world s) (Rank cmd) (Bankgroup cmd) (Bank cmd) then
        (if \<not> is_unified_queue s \<and> IsWrite cmd then
           (if mm_count (pending_rd_q s) (addr t) > 0 then s\<lparr>write_draining := 0\<rparr>
            else queue_erase q i
                   (cmd_queue_AddCommand env cmd (s\<lparr>write_draining := write_draining s - 1\<rparr>)))
         else queue_erase q i (cmd_queue_AddCommand env cmd s))
      else schedule_walk env pop q (Suc i) ts s)"

definition ScheduleTransaction :: "'w Env \<Rightarrow> 'w Controller \<Rightarrow> 'w Controller" where
  "ScheduleTransaction env s =
     (let s1 = drain_start env s;
          pop_MRS = (vsize (mrs_buffer s1) > 0);
          q = (if pop_MRS then MRS_BUFFER
               else if is_unified_queue s1 then UNIFIED_QUEUE
               else if write_draining s1 > 0 then WRITE_BUFFER
               else READ_QUEUE)
      in schedule_walk env pop_MRS q 0 (items (sel_queue q s1)) s1)"

subsection \<open>IssueCommand\<close>

text \<open>
  The loop that returns the pending reads of an address: \<open>n\<close> is \<^verbatim>\<open>num_reads\<close>.
\<close>

fun issue_reads :: "'w Env \<Rightarrow> u64 \<Rightarrow> nat \<Rightarrow> 'w Controller \<Rightarrow> error + 'w Controller" where
  "issue_reads env a 0 s = Inr s"
| "issue_reads env a (Suc n) s =
     (case mm_find (pending_rd_q s) a of
        None \<Rightarrow> Inl Undefined
      | Some t \<Rightarrow>
          (let t1 = t\<lparr>complete_cycle := clk s + word_of_int (read_delay (cfg env))\<rparr>;
               t2 = (if is_LRDIMM (cfg env)
                     then t1\<lparr>complete_cycle :=
                              complete_cycle t1
                                + word_of_int (tPDM_RD (cfg env) + tRPRE (cfg env))\<rparr>
                     else t1)
           in issue_reads env a n
                (s\<lparr>return_queue := return_queue s @ [t2],
                   pending_rd_q := mm_erase a (pending_rd_q s)\<rparr>)))"

text \<open>
  \<^verbatim>\<open>UpdateCommandStats\<close> only counts, but stops the run on a command type it does not
  know.
\<close>

definition UpdateCommandStats :: "Command \<Rightarrow> 'w Controller \<Rightarrow> error + 'w Controller" where
  "UpdateCommandStats cmd s = (if cmd_type cmd = SIZE then Inl AbruptExit else Inr s)"

definition IssueCommand :: "'w Env \<Rightarrow> Command \<Rightarrow> 'w Controller \<Rightarrow> error + 'w Controller" where
  "IssueCommand env cmd s =
     (let s0 = s\<lparr>cmd_trace := cmd_trace s @ [(clk s, cmd)]\<rparr>;
          r =
            (if IsRead cmd then
               (let num_reads = mm_count (pending_rd_q s0) (hex_addr cmd) in
                if num_reads = 0 then Inl Exit1
                else issue_reads env (hex_addr cmd) num_reads s0)
             else if IsWrite cmd then
               (case mm_find (pending_wr_q s0) (hex_addr cmd) of
                  None \<Rightarrow> Inl Exit1
                | Some t \<Rightarrow>
                    Inr (s0\<lparr>world :=
                              (if is_LRDIMM (cfg env)
                               then enqueWRData env (Rank cmd) (hex_addr cmd) (payload t) (world s0)
                               else world s0),
                            pending_wr_q := mm_erase (hex_addr cmd) (pending_wr_q s0)\<rparr>))
             else if IsMRSCMD cmd then Inr s0
             else Inr s0)
      in case r of
           Inl e \<Rightarrow> Inl e
         | Inr s1 \<Rightarrow>
             (case UpdateCommandStats cmd s1 of
                Inl e \<Rightarrow> Inl e
              | Inr s2 \<Rightarrow>
                  Inr (s2\<lparr>world := UpdateTimingAndStates env cmd (clk s2) (world s2)\<rparr>)))"

subsection \<open>ClockTick\<close>

text \<open>
  The read response of the on-board buffer: \<^verbatim>\<open>resize\<close> of the payload, then the copy
  word by word.
\<close>

definition resize_words :: "nat \<Rightarrow> u64 list \<Rightarrow> u64 list" where
  "resize_words n p = take n p @ replicate (n - length p) 0"

definition copy_words :: "u64 list \<Rightarrow> u64 list \<Rightarrow> u64 list" where
  "copy_words d p = foldl (\<lambda>p' j. p'[j := d ! j]) p [0..<length d]"

text \<open>
  The loop over the indices of \<^verbatim>\<open>return_queue_\<close>: \<open>pre\<close> holds the entries already
  visited, the flag is \<^verbatim>\<open>isResp\<close>.
\<close>

fun attach_resp ::
  "u64 \<Rightarrow> u64 list \<Rightarrow> Transaction list \<Rightarrow> Transaction list \<Rightarrow> bool
     \<Rightarrow> bool \<times> Transaction list" where
  "attach_resp a d pre [] isResp = (isResp, pre)"
| "attach_resp a d pre (t # ts) isResp =
     (if addr t = a then
        attach_resp a d
          (pre @ [t\<lparr>payload := copy_words d (resize_words (length d) (payload t))\<rparr>]) ts True
      else attach_resp a d (pre @ [t]) ts isResp)"

definition ClockTick_lrdimm :: "'w Env \<Rightarrow> 'w Controller \<Rightarrow> error + 'w Controller" where
  "ClockTick_lrdimm env s =
     (if is_LRDIMM (cfg env) then
        (let resp = getRDResp env (updateBoB env (world s));
             s1 = s\<lparr>world := snd resp\<rparr> in
         if IsValid (fst (fst resp)) then
           (if \<not> IsRead (fst (fst resp)) then Inl AssertFailed
            else
              (let r = attach_resp (hex_addr (fst (fst resp))) (snd (fst resp)) []
                         (return_queue s1) False in
               if \<not> fst r then Inl AssertFailed
               else Inr (s1\<lparr>return_queue := snd r\<rparr>)))
         else Inr s1)
      else Inr s)"

definition Command_default :: "'w Env \<Rightarrow> Command" where
  "Command_default env = \<lparr>cmd_type = SIZE, cmd_addr = Address_default env, hex_addr = 0\<rparr>"

text \<open>The choice of the command of this cycle: a refresh command first.\<close>

definition select_command :: "'w Env \<Rightarrow> 'w Controller \<Rightarrow> Command \<times> 'w" where
  "select_command env s =
     (let r = (if IsRefreshWaiting env (world s) then FinishRefresh env (world s)
               else (Command_default env, world s)) in
      if \<not> IsValid (fst r) then GetCommandToIssue env (snd r) else r)"

text \<open>
  The issue of the chosen command and, with \<^verbatim>\<open>enable_hbm_dual_cmd\<close>, of a second one.
  The Boolean is \<^verbatim>\<open>cmd_issued\<close>.
\<close>

definition ClockTick_issue ::
  "'w Env \<Rightarrow> 'w Controller \<Rightarrow> error + (bool \<times> 'w Controller)" where
  "ClockTick_issue env s =
     (let sel = select_command env s;
          cmd = fst sel;
          s1 = s\<lparr>world := snd sel\<rparr> in
      if IsValid cmd then
        (case IssueCommand env cmd s1 of
           Inl e \<Rightarrow> Inl e
         | Inr s2 \<Rightarrow>
             (let s3 = (if is_LRDIMM (cfg env)
                        then s2\<lparr>world := recDDRcmd env cmd (world s2)\<rparr> else s2) in
              if enable_hbm_dual_cmd (cfg env) then
                (let sel2 = GetCommandToIssue env (world s3);
                     second_cmd = fst sel2;
                     s4 = s3\<lparr>world := snd sel2\<rparr> in
                 if IsValid second_cmd then
                   (if IsReadWrite env second_cmd \<noteq> IsReadWrite env cmd then
                      (case IssueCommand env second_cmd s4 of
                         Inl e \<Rightarrow> Inl e
                       | Inr s5 \<Rightarrow> Inr (True, s5))
                    else Inr (True, s4))
                 else Inr (True, s4))
              else Inr (True, s3)))
      else Inr (False, s1))"

text \<open>The power accounting of one rank, and of all ranks.\<close>

definition power_rank :: "'w Env \<Rightarrow> 'w \<Rightarrow> int \<Rightarrow> 'w" where
  "power_rank env w i =
     (if IsRankSelfRefreshing env w i then w
      else if IsAllBankIdleInRank env w i
      then set_rank_idle_cycles env i (rank_idle_cycles env w i + 1) w
      else set_rank_idle_cycles env i 0 w)"

definition ClockTick_power :: "'w Env \<Rightarrow> 'w Controller \<Rightarrow> 'w Controller" where
  "ClockTick_power env s =
     s\<lparr>world := foldl (power_rank env) (world s) [0..ranks (cfg env) - 1]\<rparr>"

text \<open>The loop over the ranks that moves a rank into or out of self-refresh.\<close>

fun sref_walk :: "'w Env \<Rightarrow> int list \<Rightarrow> 'w Controller \<Rightarrow> error + 'w Controller" where
  "sref_walk env [] s = Inr s"
| "sref_walk env (i # rs) s =
     (if IsRankSelfRefreshing env (world s) i then
        (if \<not> rank_q_empty env (world s) i then
           (let cmd = GetReadyCommand env (world s)
                        \<lparr>cmd_type = SREF_EXIT,
                         cmd_addr = (Address_default env)\<lparr>rank := i\<rparr>,
                         hex_addr = - 1\<rparr> (clk s) in
            if IsValid cmd then IssueCommand env cmd s else sref_walk env rs s)
         else sref_walk env rs s)
      else
        (if rank_q_empty env (world s) i
            \<and> rank_idle_cycles env (world s) i \<ge> sref_threshold (cfg env) then
           (let cmd = GetReadyCommand env (world s)
                        \<lparr>cmd_type = SREF_ENTER,
                         cmd_addr = (Address_default env)\<lparr>rank := i\<rparr>,
                         hex_addr = - 1\<rparr> (clk s) in
            if IsValid cmd then IssueCommand env cmd s else sref_walk env rs s)
         else sref_walk env rs s))"

definition ClockTick_sref :: "'w Env \<Rightarrow> bool \<Rightarrow> 'w Controller \<Rightarrow> error + 'w Controller" where
  "ClockTick_sref env cmd_issued s =
     (if enable_self_refresh (cfg env) \<and> \<not> cmd_issued
      then sref_walk env [0..ranks (cfg env) - 1] s
      else Inr s)"

definition ClockTick :: "'w Env \<Rightarrow> 'w Controller \<Rightarrow> error + 'w Controller" where
  "ClockTick env s =
     (case ClockTick_lrdimm env (s\<lparr>world := refresh_ClockTick env (world s)\<rparr>) of
        Inl e \<Rightarrow> Inl e
      | Inr s1 \<Rightarrow>
          (case ClockTick_issue env s1 of
             Inl e \<Rightarrow> Inl e
           | Inr issued \<Rightarrow>
               (case ClockTick_sref env (fst issued) (ClockTick_power env (snd issued)) of
                  Inl e \<Rightarrow> Inl e
                | Inr s3 \<Rightarrow>
                    (let s4 = ScheduleTransaction env s3;
                         s5 = s4\<lparr>clk := clk s4 + 1\<rparr>
                     in Inr (s5\<lparr>world := cmd_queue_ClockTick env (world s5)\<rparr>)))))"

section \<open>Reachable states\<close>

text \<open>
  The states a driver can bring the controller into through its public member
  functions, from the constructed one, for any behaviour of the collaborators.
  The driver is not assumed to ask \<^verbatim>\<open>WillAcceptTransaction\<close> first.
\<close>

inductive reachable :: "'w Env \<Rightarrow> 'w Controller \<Rightarrow> bool" for env :: "'w Env" where
  reach_init: "reachable env (Controller_init env w)"
| reach_add: "reachable env s \<Longrightarrow> AddTransaction env tr s = Inr (b, s') \<Longrightarrow> reachable env s'"
| reach_tick: "reachable env s \<Longrightarrow> ClockTick env s = Inr s' \<Longrightarrow> reachable env s'"
| reach_done: "reachable env s \<Longrightarrow> ReturnDoneTrans env c s = Inr (p, s') \<Longrightarrow> reachable env s'"
| reach_resp: "reachable env s \<Longrightarrow> GetRespData s = Inr (d, s') \<Longrightarrow> reachable env s'"

text \<open>The invariants of the reachable states that the properties below rest on.\<close>

definition wr_distinct :: "'w Controller \<Rightarrow> bool" where
  "wr_distinct s = distinct (map fst (pending_wr_q s))"

definition mrs_only :: "'w Controller \<Rightarrow> bool" where
  "mrs_only s = list_all is_MRS (items (mrs_buffer s))"

text \<open>
  The commands that one call of \<^verbatim>\<open>ScheduleTransaction\<close> hands to
  \<^verbatim>\<open>cmd_queue_.AddCommand\<close>.
\<close>

definition scheduled :: "'w Env \<Rightarrow> 'w Controller \<Rightarrow> Command list" where
  "scheduled env s =
     drop (length (cmd_queue_added s)) (cmd_queue_added (ScheduleTransaction env s))"

text \<open>
  The transaction buffers of the split configuration hold what \<^verbatim>\<open>AddTransaction\<close> puts
  into them: writes in \<^verbatim>\<open>write_buffer_\<close>, reads in \<^verbatim>\<open>read_queue_\<close>.
\<close>

definition queues_typed :: "'w Controller \<Rightarrow> bool" where
  "queues_typed s =
     (list_all (\<lambda>t. is_write t \<and> \<not> is_MRS t) (items (write_buffer s))
      \<and> list_all (\<lambda>t. \<not> is_write t \<and> \<not> is_MRS t) (items (read_queue s)))"

text \<open>
  The test that \<^verbatim>\<open>ScheduleTransaction\<close> makes on a candidate: the command queue accepts
  the command of the transaction.
\<close>

definition acceptable :: "'w Env \<Rightarrow> 'w Controller \<Rightarrow> Transaction \<Rightarrow> bool" where
  "acceptable env s t =
     (let cmd = TransToCommand env s t in
      WillAcceptCommand env (world s) (Rank cmd) (Bankgroup cmd) (Bank cmd))"

text \<open>The pending entries of an address, oldest first.\<close>

definition entries :: "pending_q \<Rightarrow> u64 \<Rightarrow> Transaction list" where
  "entries m k = map snd (filter (\<lambda>e. fst e = k) m)"

section \<open>Runs and a concrete environment\<close>

text \<open>A run is a sequence of calls of the public member functions.\<close>

datatype Call = CallAdd Transaction | CallTick | CallReturnDone u64 | CallGetResp

fun call :: "'w Env \<Rightarrow> Call \<Rightarrow> 'w Controller \<Rightarrow> error + 'w Controller" where
  "call env (CallAdd t) s = (case AddTransaction env t s of Inl e \<Rightarrow> Inl e | Inr r \<Rightarrow> Inr (snd r))"
| "call env CallTick s = ClockTick env s"
| "call env (CallReturnDone c) s =
     (case ReturnDoneTrans env c s of Inl e \<Rightarrow> Inl e | Inr r \<Rightarrow> Inr (snd r))"
| "call env CallGetResp s = (case GetRespData s of Inl e \<Rightarrow> Inl e | Inr r \<Rightarrow> Inr (snd r))"

fun run :: "'w Env \<Rightarrow> Call list \<Rightarrow> 'w Controller \<Rightarrow> error + 'w Controller" where
  "run env [] s = Inr s"
| "run env (c # cs) s = (case call env c s of Inl e \<Rightarrow> Inl e | Inr s' \<Rightarrow> run env cs s')"

text \<open>
  A small environment to run the controller in: the command queue is one list that
  takes every command, and hands its oldest command out once a number of cycles has
  passed (the second component counts them down); no refresh, no self-refresh, no
  response of the on-board buffer. \<open>IsReadWrite\<close> holds of the read and the write
  commands.
\<close>

definition no_command :: Command where
  "no_command =
     \<lparr>cmd_type = SIZE,
      cmd_addr = \<lparr>channel = - 1, rank = - 1, bankgroup = - 1, bank = - 1, row = - 1, column = - 1\<rparr>,
      hex_addr = 0\<rparr>"

definition fifo_env :: "Config \<Rightarrow> (Command list \<times> nat) Env" where
  "fifo_env c =
     \<lparr>cfg = c,
      vector_growth = (\<lambda>n. 2 * n),
      Address_default =
        \<lparr>channel = - 1, rank = - 1, bankgroup = - 1, bank = - 1, row = - 1, column = - 1\<rparr>,
      IsReadWrite = (\<lambda>cmd. IsRead cmd \<or> IsWrite cmd),
      refresh_ClockTick = (\<lambda>w. w),
      updateBoB = (\<lambda>w. w),
      getRDResp = (\<lambda>w. ((no_command, []), w)),
      recDDRcmd = (\<lambda>cmd w. w),
      enqueWRData = (\<lambda>r a p w. w),
      IsRefreshWaiting = (\<lambda>w. False),
      IsRankSelfRefreshing = (\<lambda>w i. False),
      IsAllBankIdleInRank = (\<lambda>w i. True),
      rank_idle_cycles = (\<lambda>w i. 0),
      set_rank_idle_cycles = (\<lambda>i v w. w),
      GetReadyCommand = (\<lambda>w cmd c. no_command),
      UpdateTimingAndStates = (\<lambda>cmd c w. w),
      FinishRefresh = (\<lambda>w. (no_command, w)),
      GetCommandToIssue =
        (\<lambda>w. if snd w = 0
              then (case fst w of [] \<Rightarrow> (no_command, w) | cmd # q \<Rightarrow> (cmd, (q, snd w)))
              else (no_command, w)),
      WillAcceptCommand = (\<lambda>w r g b. True),
      WillAcceptMRSCommand = (\<lambda>w. True),
      QueueEmpty = (\<lambda>w. fst w = []),
      rank_q_empty = (\<lambda>w i. fst w = []),
      AddCommand = (\<lambda>cmd w. (fst w @ [cmd], snd w)),
      cmd_queue_ClockTick = (\<lambda>w. (fst w, snd w - 1))\<rparr>"

definition zero_address :: Address where
  "zero_address = \<lparr>channel = 0, rank = 0, bankgroup = 0, bank = 0, row = 0, column = 0\<rparr>"

text \<open>A split-queue configuration with room for two transactions in each buffer.\<close>

definition split_cfg :: Config where
  "split_cfg =
     \<lparr>cfg_unified_queue = False,
      cfg_row_buf_policy = ''OPEN_PAGE'',
      trans_queue_size = 2,
      is_LRDIMM = False,
      enable_hbm_dual_cmd = False,
      enable_self_refresh = False,
      ranks = 1,
      sref_threshold = 1000,
      read_delay = 10,
      tPDM_RD = 2,
      tRPRE = 1,
      AddressMapping = (\<lambda>a. zero_address)\<rparr>"

definition rd :: "u64 \<Rightarrow> Transaction" where
  "rd a = \<lparr>addr = a, added_cycle = 0, complete_cycle = 0, is_write = False, is_MRS = False,
           payload = []\<rparr>"

definition wr :: "u64 \<Rightarrow> u64 list \<Rightarrow> Transaction" where
  "wr a p = \<lparr>addr = a, added_cycle = 0, complete_cycle = 0, is_write = True, is_MRS = False,
             payload = p\<rparr>"

definition mrs :: "u64 \<Rightarrow> Transaction" where
  "mrs a = \<lparr>addr = a, added_cycle = 0, complete_cycle = 0, is_write = False, is_MRS = True,
            payload = []\<rparr>"

definition cmd_at :: "CommandType \<Rightarrow> u64 \<Rightarrow> Command" where
  "cmd_at t a = \<lparr>cmd_type = t, cmd_addr = zero_address, hex_addr = a\<rparr>"

text \<open>
  The state after a sequence of calls on the constructed controller (the constructed
  controller itself if the run stops on the way).
\<close>

definition state_after :: "'w Env \<Rightarrow> Call list \<Rightarrow> 'w \<Rightarrow> 'w Controller" where
  "state_after env cs w =
     (case run env cs (Controller_init env w) of
        Inl e \<Rightarrow> Controller_init env w
      | Inr s \<Rightarrow> s)"

text \<open>The environments and states of the examples.\<close>

definition split_env :: "(Command list \<times> nat) Env" where
  "split_env = fifo_env split_cfg"

definition lrdimm_env :: "(Command list \<times> nat) Env" where
  "lrdimm_env = fifo_env (split_cfg\<lparr>is_LRDIMM := True\<rparr>)"

definition unified_env :: "(Command list \<times> nat) Env" where
  "unified_env = fifo_env (split_cfg\<lparr>cfg_unified_queue := True\<rparr>)"



text \<open>
  Two reads of address 5, accepted in the cycles 0 and 1, and a read of address 6,
  all waiting in \<^verbatim>\<open>pending_rd_q_\<close> of a controller with an on-board buffer.
\<close>

definition coalesced_reads :: "(Command list \<times> nat) Controller" where
  "coalesced_reads =
     state_after lrdimm_env [CallAdd (rd 5), CallTick, CallAdd (rd 5), CallAdd (rd 6)] ([], 2)"

text \<open>A write of address 5, accepted in cycle 0 and still pending in cycle 1.\<close>

definition pending_write :: "(Command list \<times> nat) Controller" where
  "pending_write = state_after split_env [CallAdd (wr 5 [1]), CallTick] ([], 0)"

text \<open>Two writes in a write buffer that was reserved for two.\<close>

definition full_write_buffer :: "(Command list \<times> nat) Controller" where
  "full_write_buffer = state_after split_env [CallAdd (wr 5 [1]), CallAdd (wr 6 [2])] ([], 0)"

text \<open>Nine writes in a write buffer that was reserved for sixteen.\<close>

definition wide_env :: "(Command list \<times> nat) Env" where
  "wide_env = fifo_env (split_cfg\<lparr>trans_queue_size := 16\<rparr>)"

definition nine_writes :: "(Command list \<times> nat) Controller" where
  "nine_writes =
     state_after wide_env
       [CallAdd (wr 1 []), CallAdd (wr 2 []), CallAdd (wr 3 []), CallAdd (wr 4 []),
        CallAdd (wr 5 []), CallAdd (wr 6 []), CallAdd (wr 7 []), CallAdd (wr 8 []),
        CallAdd (wr 9 [])] ([], 0)"

text \<open>The same nine writes, and a mode register transaction.\<close>

definition nine_writes_mrs :: "(Command list \<times> nat) Controller" where
  "nine_writes_mrs =
     state_after wide_env
       [CallAdd (wr 1 []), CallAdd (wr 2 []), CallAdd (wr 3 []), CallAdd (wr 4 []),
        CallAdd (wr 5 []), CallAdd (wr 6 []), CallAdd (wr 7 []), CallAdd (wr 8 []),
        CallAdd (wr 9 []), CallAdd (mrs 10)] ([], 0)"

text \<open>
  Unified queue: a read and then a write of address 5, and one cycle, in which the
  read went to the command queue; the command queue releases nothing yet.
\<close>

definition unified_read_write :: "(Command list \<times> nat) Controller" where
  "unified_read_write =
     state_after unified_env [CallAdd (rd 5), CallAdd (wr 5 [1]), CallTick] ([], 2)"

text \<open>
  Dual command issue: after two cycles the command queue holds the read of address 5
  and the write of address 6, or the mode register command and the read, and
  releases them.
\<close>

definition hbm_env :: "(Command list \<times> nat) Env" where
  "hbm_env = fifo_env (split_cfg\<lparr>cfg_unified_queue := True, enable_hbm_dual_cmd := True\<rparr>)"

definition hbm_read_write :: "(Command list \<times> nat) Controller" where
  "hbm_read_write =
     state_after hbm_env [CallAdd (rd 5), CallAdd (wr 6 [1]), CallTick, CallTick] ([], 2)"

definition hbm_mrs_read :: "(Command list \<times> nat) Controller" where
  "hbm_mrs_read =
     state_after hbm_env [CallAdd (rd 5), CallAdd (mrs 9), CallTick, CallTick] ([], 2)"

text \<open>
  An on-board buffer that answers with the data \<open>[7, 8]\<close> for the read of address 5;
  the controller holds the acknowledgement of a write of address 5 and a read of
  address 5 that was served from the pending write.
\<close>

definition bob_env :: "(Command list \<times> nat) Env" where
  "bob_env = lrdimm_env\<lparr>getRDResp := (\<lambda>w. ((cmd_at READ 5, [7, 8]), w))\<rparr>"

definition write_and_read :: "(Command list \<times> nat) Controller" where
  "write_and_read = state_after bob_env [CallAdd (wr 5 [1]), CallAdd (rd 5)] ([], 0)"

text \<open>
  Split queues: a read of address 5 is pending, and the write buffer is full with
  the writes of the addresses 5 and 6.
\<close>

definition blocked_write :: "(Command list \<times> nat) Controller" where
  "blocked_write =
     state_after split_env [CallAdd (rd 5), CallAdd (wr 5 [1]), CallAdd (wr 6 [2])] ([], 2)"

section \<open>Lemmas on the containers\<close>

lemma mm_count_0_iff: "mm_count m k = 0 \<longleftrightarrow> k \<notin> fst ` set m"
  by (induction m) (auto simp: mm_count_def)

lemma mm_find_None_iff: "mm_find m k = None \<longleftrightarrow> k \<notin> fst ` set m"
  by (induction m) auto

lemma mm_find_Some_count: "mm_find m k = Some t \<Longrightarrow> 0 < mm_count m k"
  by (induction m) (auto simp: mm_count_def split: if_splits)

lemma map_fst_mm_update: "map fst (mm_update k f m) = map fst m"
  by (induction m) auto

lemma set_mm_erase: "set (mm_erase k m) \<subseteq> set m"
  by (induction m) auto

lemma distinct_mm_erase: "distinct (map fst m) \<Longrightarrow> distinct (map fst (mm_erase k m))"
proof (induction m)
  case Nil
  then show ?case by simp
next
  case (Cons e m)
  have "fst ` set (mm_erase k m) \<subseteq> fst ` set m"
    using set_mm_erase [of k m] by blast
  with Cons show ?case by auto
qed

lemma distinct_mm_insert:
  "mm_count m k = 0 \<Longrightarrow> distinct (map fst m) \<Longrightarrow> distinct (map fst (mm_insert k t m))"
  by (simp add: mm_insert_def mm_count_0_iff)

lemma mm_erase_absent: "distinct (map fst m) \<Longrightarrow> k \<notin> fst ` set (mm_erase k m)"
  by (induction m) (auto simp: rev_image_eqI)

lemma filter_key_empty: "k \<notin> fst ` set m \<Longrightarrow> filter (\<lambda>e. fst e = k) m = []"
  by (induction m) auto

lemma mm_count_le_1: "distinct (map fst m) \<Longrightarrow> mm_count m k \<le> 1"
  by (induction m) (auto simp: mm_count_def filter_key_empty)

lemma mm_first:
  "mm_count m k = Suc n \<Longrightarrow>
   \<exists>t. mm_find m k = Some t \<and> mm_count (mm_erase k m) k = n
        \<and> entries m k = t # entries (mm_erase k m) k
        \<and> filter (\<lambda>e. fst e \<noteq> k) (mm_erase k m) = filter (\<lambda>e. fst e \<noteq> k) m"
  by (induction m) (auto simp: mm_count_def entries_def)

lemma filter_other_keys: "k \<notin> fst ` set m \<Longrightarrow> filter (\<lambda>e. fst e \<noteq> k) m = m"
  by (induction m) auto

section \<open>IssueCommand in closed form\<close>

lemma issue_reads_all:
  "mm_count (pending_rd_q s) a = n \<Longrightarrow>
   issue_reads env a n s =
     Inr (s\<lparr>return_queue :=
              return_queue s @
              map (\<lambda>t. t\<lparr>complete_cycle :=
                           clk s + word_of_int (read_delay (cfg env))
                           + (if is_LRDIMM (cfg env)
                              then word_of_int (tPDM_RD (cfg env) + tRPRE (cfg env)) else 0)\<rparr>)
                  (entries (pending_rd_q s) a),
            pending_rd_q := filter (\<lambda>e. fst e \<noteq> a) (pending_rd_q s)\<rparr>)"
proof (induction n arbitrary: s)
  case 0
  then have "a \<notin> fst ` set (pending_rd_q s)"
    by (simp add: mm_count_0_iff)
  then show ?case
    by (simp add: entries_def filter_key_empty filter_other_keys)
next
  case (Suc n)
  from mm_first [OF Suc.prems] obtain t where
    t: "mm_find (pending_rd_q s) a = Some t"
       "mm_count (mm_erase a (pending_rd_q s)) a = n"
       "entries (pending_rd_q s) a = t # entries (mm_erase a (pending_rd_q s)) a"
       "filter (\<lambda>e. fst e \<noteq> a) (mm_erase a (pending_rd_q s)) =
        filter (\<lambda>e. fst e \<noteq> a) (pending_rd_q s)"
    by blast
  show ?case
    by (simp add: t Let_def Suc.IH)
qed

lemma IssueCommand_eq:
  "IssueCommand env cmd s =
     (if IsRead cmd then
        (if mm_count (pending_rd_q s) (hex_addr cmd) = 0 then Inl Exit1
         else Inr (s\<lparr>cmd_trace := cmd_trace s @ [(clk s, cmd)],
                    return_queue :=
                      return_queue s @
                      map (\<lambda>t. t\<lparr>complete_cycle :=
                                   clk s + word_of_int (read_delay (cfg env))
                                   + (if is_LRDIMM (cfg env)
                                      then word_of_int (tPDM_RD (cfg env) + tRPRE (cfg env))
                                      else 0)\<rparr>)
                          (entries (pending_rd_q s) (hex_addr cmd)),
                    pending_rd_q := filter (\<lambda>e. fst e \<noteq> hex_addr cmd) (pending_rd_q s),
                    world := UpdateTimingAndStates env cmd (clk s) (world s)\<rparr>))
      else if IsWrite cmd then
        (case mm_find (pending_wr_q s) (hex_addr cmd) of
           None \<Rightarrow> Inl Exit1
         | Some t \<Rightarrow>
             Inr (s\<lparr>cmd_trace := cmd_trace s @ [(clk s, cmd)],
                    pending_wr_q := mm_erase (hex_addr cmd) (pending_wr_q s),
                    world := UpdateTimingAndStates env cmd (clk s)
                               (if is_LRDIMM (cfg env)
                                then enqueWRData env (Rank cmd) (hex_addr cmd) (payload t) (world s)
                                else world s)\<rparr>))
      else if cmd_type cmd = SIZE then Inl AbruptExit
      else Inr (s\<lparr>cmd_trace := cmd_trace s @ [(clk s, cmd)],
                 world := UpdateTimingAndStates env cmd (clk s) (world s)\<rparr>))"
  by (auto simp: IssueCommand_def UpdateCommandStats_def Let_def issue_reads_all IsRead_def IsWrite_def
      split: option.splits)

section \<open>ScheduleTransaction: what the walk changes\<close>

lemma queue_erase_frame [simp]:
  "pending_wr_q (queue_erase q i s) = pending_wr_q s"
  "pending_rd_q (queue_erase q i s) = pending_rd_q s"
  "return_queue (queue_erase q i s) = return_queue s"
  "resp_data (queue_erase q i s) = resp_data s"
  "cmd_trace (queue_erase q i s) = cmd_trace s"
  "cmd_queue_added (queue_erase q i s) = cmd_queue_added s"
  "clk (queue_erase q i s) = clk s"
  "is_unified_queue (queue_erase q i s) = is_unified_queue s"
  "row_buf_policy (queue_erase q i s) = row_buf_policy s"
  "write_draining (queue_erase q i s) = write_draining s"
  "world (queue_erase q i s) = world s"
  by (cases q; simp)+

lemma list_all_erase:
  "list_all P xs \<Longrightarrow> list_all P (take i xs)"
  "list_all P xs \<Longrightarrow> list_all P (drop i xs)"
  by (auto simp: list_all_iff dest: in_set_takeD in_set_dropD)

lemma mrs_only_queue_erase: "mrs_only s \<Longrightarrow> mrs_only (queue_erase q i s)"
  by (cases q) (simp_all add: mrs_only_def erase_at_def list_all_erase)

lemma schedule_walk_frame:
  "pending_wr_q (schedule_walk env pop q i ts s) = pending_wr_q s
   \<and> pending_rd_q (schedule_walk env pop q i ts s) = pending_rd_q s
   \<and> return_queue (schedule_walk env pop q i ts s) = return_queue s
   \<and> resp_data (schedule_walk env pop q i ts s) = resp_data s
   \<and> cmd_trace (schedule_walk env pop q i ts s) = cmd_trace s
   \<and> clk (schedule_walk env pop q i ts s) = clk s
   \<and> is_unified_queue (schedule_walk env pop q i ts s) = is_unified_queue s
   \<and> row_buf_policy (schedule_walk env pop q i ts s) = row_buf_policy s"
  by (induction ts arbitrary: i pop) (simp_all add: Let_def cmd_queue_AddCommand_def)

lemma schedule_walk_mrs_only:
  "mrs_only s \<Longrightarrow> mrs_only (schedule_walk env pop q i ts s)"
proof (induction ts arbitrary: i pop)
  case Nil
  then show ?case by simp
next
  case (Cons t ts)
  have a: "\<And>c s'. mrs_buffer s' = mrs_buffer s \<Longrightarrow> mrs_only (queue_erase q i (cmd_queue_AddCommand env c s'))"
    using Cons.prems by (intro mrs_only_queue_erase) (simp add: mrs_only_def cmd_queue_AddCommand_def)
  show ?case
    using Cons by (simp add: Let_def a) (simp add: mrs_only_def)
qed

lemma schedule_walk_added:
  "\<exists>cs. cmd_queue_added (schedule_walk env pop q i ts s) = cmd_queue_added s @ cs
        \<and> (\<forall>c \<in> set cs. \<exists>t \<in> set ts. c = TransToCommand env s t
              \<and> (\<not> pop \<and> \<not> is_unified_queue s \<and> IsWrite c
                   \<longrightarrow> mm_count (pending_rd_q s) (addr t) = 0))"
proof (induction ts arbitrary: i pop)
  case Nil
  then show ?case by simp
next
  case (Cons t ts)
  from Cons [of pop "Suc i"] obtain cs where
    cs: "cmd_queue_added (schedule_walk env pop q (Suc i) ts s) = cmd_queue_added s @ cs"
        "\<forall>c \<in> set cs. \<exists>t \<in> set ts. c = TransToCommand env s t
              \<and> (\<not> pop \<and> \<not> is_unified_queue s \<and> IsWrite c
                   \<longrightarrow> mm_count (pending_rd_q s) (addr t) = 0)"
    by blast
  show ?case
    using cs by (auto simp: Let_def cmd_queue_AddCommand_def)
qed

lemma hex_addr_TransToCommand [simp]: "hex_addr (TransToCommand env s t) = addr t"
  by (simp add: TransToCommand_def Let_def)

lemma TransToCommand_MRS: "is_MRS t \<Longrightarrow> \<not> IsWrite (TransToCommand env s t)"
  by (simp add: TransToCommand_def Let_def IsWrite_def)

lemma drain_start_frame [simp]:
  "pending_wr_q (drain_start env s) = pending_wr_q s"
  "pending_rd_q (drain_start env s) = pending_rd_q s"
  "return_queue (drain_start env s) = return_queue s"
  "resp_data (drain_start env s) = resp_data s"
  "cmd_trace (drain_start env s) = cmd_trace s"
  "cmd_queue_added (drain_start env s) = cmd_queue_added s"
  "clk (drain_start env s) = clk s"
  "is_unified_queue (drain_start env s) = is_unified_queue s"
  "row_buf_policy (drain_start env s) = row_buf_policy s"
  "mrs_buffer (drain_start env s) = mrs_buffer s"
  "unified_queue (drain_start env s) = unified_queue s"
  "read_queue (drain_start env s) = read_queue s"
  "write_buffer (drain_start env s) = write_buffer s"
  "world (drain_start env s) = world s"
  by (simp_all add: drain_start_def)

lemma ScheduleTransaction_frame:
  "pending_wr_q (ScheduleTransaction env s) = pending_wr_q s
   \<and> pending_rd_q (ScheduleTransaction env s) = pending_rd_q s
   \<and> return_queue (ScheduleTransaction env s) = return_queue s
   \<and> resp_data (ScheduleTransaction env s) = resp_data s
   \<and> cmd_trace (ScheduleTransaction env s) = cmd_trace s
   \<and> clk (ScheduleTransaction env s) = clk s
   \<and> is_unified_queue (ScheduleTransaction env s) = is_unified_queue s
   \<and> row_buf_policy (ScheduleTransaction env s) = row_buf_policy s"
  by (simp add: ScheduleTransaction_def Let_def schedule_walk_frame)

lemma ScheduleTransaction_mrs_only: "mrs_only s \<Longrightarrow> mrs_only (ScheduleTransaction env s)"
  unfolding ScheduleTransaction_def Let_def
  by (rule schedule_walk_mrs_only) (simp add: mrs_only_def)

lemma TransToCommand_drain_start [simp]:
  "TransToCommand env (drain_start env s) t = TransToCommand env s t"
  by (simp add: TransToCommand_def)

lemma scheduled_write_guarded:
  assumes "mrs_only s" and "\<not> is_unified_queue s"
    and "c \<in> set (scheduled env s)" and "IsWrite c"
  shows "mm_count (pending_rd_q s) (hex_addr c) = 0"
proof -
  define s1 where "s1 = drain_start env s"
  define pop where "pop = (vsize (mrs_buffer s1) > 0)"
  define q where "q = (if pop then MRS_BUFFER
               else if is_unified_queue s1 then UNIFIED_QUEUE
               else if write_draining s1 > 0 then WRITE_BUFFER
               else READ_QUEUE)"
  have st: "ScheduleTransaction env s = schedule_walk env pop q 0 (items (sel_queue q s1)) s1"
    by (simp add: ScheduleTransaction_def Let_def s1_def pop_def q_def)
  from schedule_walk_added [of env pop q 0 "items (sel_queue q s1)" s1] obtain cs where
    cs: "cmd_queue_added (schedule_walk env pop q 0 (items (sel_queue q s1)) s1)
           = cmd_queue_added s1 @ cs"
        "\<forall>c \<in> set cs. \<exists>t \<in> set (items (sel_queue q s1)). c = TransToCommand env s1 t
              \<and> (\<not> pop \<and> \<not> is_unified_queue s1 \<and> IsWrite c
                   \<longrightarrow> mm_count (pending_rd_q s1) (addr t) = 0)"
    by blast
  have "cmd_queue_added (ScheduleTransaction env s) = cmd_queue_added s @ cs"
    unfolding st using cs(1) by (simp add: s1_def)
  then have "scheduled env s = cs"
    by (simp add: scheduled_def)
  with assms(3) cs(2) obtain t where
    t: "t \<in> set (items (sel_queue q s1))" "c = TransToCommand env s1 t"
       "\<not> pop \<and> \<not> is_unified_queue s1 \<and> IsWrite c \<longrightarrow> mm_count (pending_rd_q s1) (addr t) = 0"
    by blast
  have "\<not> pop"
  proof
    assume pop
    then have "q = MRS_BUFFER" by (simp add: q_def)
    with t(1) have "t \<in> set (items (mrs_buffer s))" by (simp add: s1_def)
    with assms(1) have "is_MRS t" by (simp add: mrs_only_def list_all_iff)
    with t(2) assms(4) show False by (simp add: TransToCommand_MRS)
  qed
  with t assms show ?thesis by (simp add: s1_def)
qed

section \<open>Invariants of the reachable states\<close>

lemma AddTransaction_inv:
  assumes "AddTransaction env tr s = Inr (b, s')" and "wr_distinct s" and "mrs_only s"
  shows "wr_distinct s' \<and> mrs_only s'"
  using assms
  by (auto simp: AddTransaction_def Let_def wr_distinct_def mrs_only_def push_back_def
      distinct_mm_insert map_fst_mm_update updatePayload_def
      split: if_splits option.splits)

lemma ReturnDoneTrans_inv:
  assumes "ReturnDoneTrans env c s = Inr (p, s')" and "wr_distinct s" and "mrs_only s"
  shows "wr_distinct s' \<and> mrs_only s'"
  using assms
  by (auto simp: ReturnDoneTrans_def wr_distinct_def mrs_only_def
      split: sum.splits option.splits prod.splits)

lemma GetRespData_inv:
  assumes "GetRespData s = Inr (d, s')" and "wr_distinct s" and "mrs_only s"
  shows "wr_distinct s' \<and> mrs_only s'"
  using assms
  by (auto simp: GetRespData_def wr_distinct_def mrs_only_def split: list.splits)

lemma IssueCommand_inv:
  assumes "IssueCommand env cmd s = Inr s'" and "wr_distinct s" and "mrs_only s"
  shows "wr_distinct s' \<and> mrs_only s'"
  using assms
  by (auto simp: IssueCommand_eq wr_distinct_def mrs_only_def distinct_mm_erase
      split: if_splits option.splits)

lemma sref_walk_inv:
  "sref_walk env rs s = Inr s' \<Longrightarrow> wr_distinct s \<Longrightarrow> mrs_only s \<Longrightarrow> wr_distinct s' \<and> mrs_only s'"
proof (induction rs)
  case Nil
  then show ?case by simp
next
  case (Cons i rs)
  then show ?case
    by (auto simp: Let_def split: if_splits dest: IssueCommand_inv)
qed

lemma ClockTick_lrdimm_inv:
  assumes "ClockTick_lrdimm env s = Inr s'" and "wr_distinct s" and "mrs_only s"
  shows "wr_distinct s' \<and> mrs_only s'"
  using assms
  by (auto simp: ClockTick_lrdimm_def Let_def wr_distinct_def mrs_only_def split: if_splits)

lemma ClockTick_issue_inv:
  assumes "ClockTick_issue env s = Inr (b, s')" and "wr_distinct s" and "mrs_only s"
  shows "wr_distinct s' \<and> mrs_only s'"
proof -
  have w: "\<And>s w. wr_distinct (s\<lparr>world := w\<rparr>) = wr_distinct s" "\<And>s w. mrs_only (s\<lparr>world := w\<rparr>) = mrs_only s"
    by (simp_all add: wr_distinct_def mrs_only_def)
  show ?thesis
    using assms unfolding ClockTick_issue_def Let_def
    by (auto simp: w split: if_splits sum.splits dest!: IssueCommand_inv)
qed

lemma ClockTick_inv:
  assumes "ClockTick env s = Inr s'" and "wr_distinct s" and "mrs_only s"
  shows "wr_distinct s' \<and> mrs_only s'"
proof -
  have w: "\<And>s w. wr_distinct (s\<lparr>world := w\<rparr>) = wr_distinct s" "\<And>s w. mrs_only (s\<lparr>world := w\<rparr>) = mrs_only s"
    "\<And>s c. wr_distinct (s\<lparr>clk := c\<rparr>) = wr_distinct s" "\<And>s c. mrs_only (s\<lparr>clk := c\<rparr>) = mrs_only s"
    by (simp_all add: wr_distinct_def mrs_only_def)
  from assms(1) obtain s1 b s2 s3 where
    steps: "ClockTick_lrdimm env (s\<lparr>world := refresh_ClockTick env (world s)\<rparr>) = Inr s1"
      "ClockTick_issue env s1 = Inr (b, s2)"
      "ClockTick_sref env b (ClockTick_power env s2) = Inr s3"
      "s' = (ScheduleTransaction env s3)\<lparr>clk := clk (ScheduleTransaction env s3) + 1,
              world := cmd_queue_ClockTick env (world (ScheduleTransaction env s3))\<rparr>"
    by (auto simp: ClockTick_def Let_def split: sum.splits)
  have i1: "wr_distinct s1 \<and> mrs_only s1"
    using ClockTick_lrdimm_inv [OF steps(1)] assms(2,3) by (simp add: w)
  have i2: "wr_distinct s2 \<and> mrs_only s2"
    using ClockTick_issue_inv [OF steps(2)] i1 by simp
  have i2': "wr_distinct (ClockTick_power env s2) \<and> mrs_only (ClockTick_power env s2)"
    using i2 by (simp add: ClockTick_power_def w)
  have i3: "wr_distinct s3 \<and> mrs_only s3"
    using steps(3) i2' by (auto simp: ClockTick_sref_def split: if_splits dest: sref_walk_inv)
  have "wr_distinct (ScheduleTransaction env s3)"
    using i3 by (simp add: wr_distinct_def ScheduleTransaction_frame)
  moreover have "mrs_only (ScheduleTransaction env s3)"
    using i3 by (simp add: ScheduleTransaction_mrs_only)
  ultimately show ?thesis
    by (simp add: steps(4) w)
qed

lemma Controller_init_inv: "wr_distinct (Controller_init env w) \<and> mrs_only (Controller_init env w)"
  by (simp add: Controller_init_def Let_def wr_distinct_def mrs_only_def reserve_def empty_vec_def)

lemma reachable_inv: "reachable env s \<Longrightarrow> wr_distinct s \<and> mrs_only s"
proof (induction rule: reachable.induct)
  case (reach_init w)
  show ?case by (rule Controller_init_inv)
next
  case (reach_add s tr b s')
  then show ?case using AddTransaction_inv by blast
next
  case (reach_tick s s')
  then show ?case using ClockTick_inv by blast
next
  case (reach_done s c p s')
  then show ?case using ReturnDoneTrans_inv by blast
next
  case (reach_resp s d s')
  then show ?case using GetRespData_inv by blast
qed

lemma call_reachable: "reachable env s \<Longrightarrow> call env c s = Inr s' \<Longrightarrow> reachable env s'"
  by (cases c) (auto split: sum.splits intro: reachable.intros)

lemma run_reachable: "reachable env s \<Longrightarrow> run env cs s = Inr s' \<Longrightarrow> reachable env s'"
  by (induction cs arbitrary: s) (auto split: sum.splits dest: call_reachable)

lemma reachable_state_after: "reachable env (state_after env cs w)"
  by (auto simp: state_after_def split: sum.splits intro: reach_init run_reachable)

section \<open>Evaluation of the examples\<close>

lemmas model_defs =
  fifo_env_def split_cfg_def Controller_init_def AddTransaction_def ClockTick_def
  wr_def rd_def reserve_def empty_vec_def mm_count_def mm_insert_def push_back_def vsize_def
  ClockTick_lrdimm_def ClockTick_issue_def select_command_def Command_default_def IsValid_def
  no_command_def ClockTick_power_def ClockTick_sref_def power_rank_def ScheduleTransaction_def
  drain_start_def TransToCommand_def updatePayload_def state_after_def IssueCommand_eq
  cmd_queue_AddCommand_def erase_at_def IsRead_def IsWrite_def Rank_def Bank_def Bankgroup_def
  zero_address_def entries_def cmd_at_def ReturnDoneTrans_def GetRespData_def scheduled_def
  split_env_def lrdimm_env_def unified_env_def wide_env_def hbm_env_def bob_env_def mrs_def
  target_queue_def WillAcceptTransaction_def WillAcceptTransaction_MRS_def acceptable_def Let_def

section \<open>ReturnDoneTrans\<close>





section \<open>IssueCommand of a read\<close>

lemma mm_count_filter_other: "mm_count (filter (\<lambda>e. fst e \<noteq> k) m) k = 0"
  by (simp add: mm_count_def)

lemma length_entries: "length (entries m k) = mm_count m k"
  by (simp add: entries_def mm_count_def)

text \<open>
  Claim C2. When \<^verbatim>\<open>IssueCommand\<close> takes a read command (\<^verbatim>\<open>READ\<close> or
  \<^verbatim>\<open>READ_PRECHARGE\<close>) whose address has at least one entry in \<^verbatim>\<open>pending_rd_q_\<close>, it
  returns, and every pending entry of that address, oldest first, is appended to
  \<^verbatim>\<open>return_queue_\<close> with \<open>complete_cycle = clk + read_delay\<close>, plus \<open>tPDM_RD + tRPRE\<close>
  with an on-board buffer: the same cycle for all of them. Afterwards
  \<^verbatim>\<open>pending_rd_q_\<close> holds no entry of that address and all its other entries.
\<close>

theorem IssueCommand_read_returns_all:
  assumes "IsRead cmd" and "0 < mm_count (pending_rd_q s) (hex_addr cmd)"
  shows "\<exists>s'. IssueCommand env cmd s = Inr s'
     \<and> return_queue s' =
         return_queue s @
         map (\<lambda>t. t\<lparr>complete_cycle :=
                      clk s + word_of_int (read_delay (cfg env))
                      + (if is_LRDIMM (cfg env)
                         then word_of_int (tPDM_RD (cfg env) + tRPRE (cfg env)) else 0)\<rparr>)
             (entries (pending_rd_q s) (hex_addr cmd))
     \<and> length (entries (pending_rd_q s) (hex_addr cmd)) = mm_count (pending_rd_q s) (hex_addr cmd)
     \<and> pending_rd_q s' = filter (\<lambda>e. fst e \<noteq> hex_addr cmd) (pending_rd_q s)
     \<and> mm_count (pending_rd_q s') (hex_addr cmd) = 0"
  using assms by (simp add: IssueCommand_eq mm_count_filter_other length_entries)

text \<open>
  Claim C2, an instance: two reads of address 5, accepted in the cycles 0 and 1, are
  returned by one \<^verbatim>\<open>READ\<close> issued in cycle 1, both for cycle \<open>1 + 10 + 2 + 1 = 14\<close>; the
  read of address 6 stays pending.
\<close>

theorem IssueCommand_read_returns_all_witness:
  "IsRead (cmd_at READ 5)
   \<and> mm_count (pending_rd_q coalesced_reads) (hex_addr (cmd_at READ 5)) = 2
   \<and> clk coalesced_reads = 1
   \<and> (\<exists>s'. IssueCommand lrdimm_env (cmd_at READ 5) coalesced_reads = Inr s'
         \<and> return_queue s' =
             [(rd 5)\<lparr>complete_cycle := 14\<rparr>, (rd 5)\<lparr>added_cycle := 1, complete_cycle := 14\<rparr>]
         \<and> pending_rd_q s' = [(6, (rd 6)\<lparr>added_cycle := 1\<rparr>)])"
proof -
  have a: "IsRead (cmd_at READ 5)"
    by (simp add: model_defs)
  have b: "mm_count (pending_rd_q coalesced_reads) (hex_addr (cmd_at READ 5)) = 2"
    by (simp add: coalesced_reads_def model_defs)
  have c: "clk coalesced_reads = 1" "return_queue coalesced_reads = []"
    "pending_rd_q coalesced_reads =
       [(5, rd 5), (5, (rd 5)\<lparr>added_cycle := 1\<rparr>), (6, (rd 6)\<lparr>added_cycle := 1\<rparr>)]"
    by (simp_all add: coalesced_reads_def model_defs)
  have d: "is_LRDIMM (cfg lrdimm_env)" "read_delay (cfg lrdimm_env) = 10"
    "tPDM_RD (cfg lrdimm_env) = 2" "tRPRE (cfg lrdimm_env) = 1"
    by (simp_all add: model_defs)
  from IssueCommand_read_returns_all [of "cmd_at READ 5" coalesced_reads lrdimm_env] a b
  obtain s' where s': "IssueCommand lrdimm_env (cmd_at READ 5) coalesced_reads = Inr s'"
    "return_queue s' =
         return_queue coalesced_reads @
         map (\<lambda>t. t\<lparr>complete_cycle :=
                      clk coalesced_reads + word_of_int (read_delay (cfg lrdimm_env))
                      + (if is_LRDIMM (cfg lrdimm_env)
                         then word_of_int (tPDM_RD (cfg lrdimm_env) + tRPRE (cfg lrdimm_env)) else 0)\<rparr>)
             (entries (pending_rd_q coalesced_reads) (hex_addr (cmd_at READ 5)))"
    "pending_rd_q s' = filter (\<lambda>e. fst e \<noteq> hex_addr (cmd_at READ 5)) (pending_rd_q coalesced_reads)"
    by auto
  have "return_queue s' =
             [(rd 5)\<lparr>complete_cycle := 14\<rparr>, (rd 5)\<lparr>added_cycle := 1, complete_cycle := 14\<rparr>]"
    by (simp add: s'(2) c d entries_def cmd_at_def rd_def)
  moreover have "pending_rd_q s' = [(6, (rd 6)\<lparr>added_cycle := 1\<rparr>)]"
    by (simp add: s'(3) c cmd_at_def)
  ultimately show ?thesis using a b c(1) s'(1) by blast
qed

section \<open>AddTransaction\<close>

text \<open>
  Claim C3. In a reachable state, a read transaction (neither \<open>is_write\<close> nor
  \<open>is_MRS\<close>) whose address has the entry \<open>w\<close> in \<^verbatim>\<open>pending_wr_q_\<close> is accepted with
  the result \<open>true\<close>; it is appended to \<^verbatim>\<open>return_queue_\<close> with the payload of \<open>w\<close>,
  \<open>added_cycle = clk\<close> and \<open>complete_cycle = clk + 1\<close>. Nothing else changes but
  \<^verbatim>\<open>last_trans_clk_\<close>: the transaction enters neither \<^verbatim>\<open>pending_rd_q_\<close> nor a
  transaction queue, so no command is made from it.
\<close>

theorem AddTransaction_read_forwarded:
  assumes "reachable env s" and "\<not> is_write tr" and "\<not> is_MRS tr"
    and "mm_find (pending_wr_q s) (addr tr) = Some w"
  shows "AddTransaction env tr s =
           Inr (True,
                s\<lparr>last_trans_clk := clk s,
                  return_queue :=
                    return_queue s @
                    [tr\<lparr>added_cycle := clk s, complete_cycle := clk s + 1,
                        payload := payload w\<rparr>]\<rparr>)"
proof -
  have "wr_distinct s"
    using assms(1) reachable_inv by blast
  then have "mm_count (pending_wr_q s) (addr tr) \<le> 1"
    unfolding wr_distinct_def by (rule mm_count_le_1)
  moreover have "0 < mm_count (pending_wr_q s) (addr tr)"
    using assms(4) by (rule mm_find_Some_count)
  ultimately have "mm_count (pending_wr_q s) (addr tr) = 1"
    by simp
  then show ?thesis
    using assms(2-4) by (simp add: AddTransaction_def Let_def updatePayload_def)
qed

text \<open>
  Claim C3, an instance: the write of address 5 with the payload \<open>[1]\<close> is pending in
  cycle 1; a read of address 5 is returned for cycle 2 with the payload \<open>[1]\<close>.
\<close>

theorem AddTransaction_read_forwarded_witness:
  "reachable split_env pending_write
   \<and> \<not> is_write (rd 5) \<and> \<not> is_MRS (rd 5)
   \<and> mm_find (pending_wr_q pending_write) (addr (rd 5)) = Some (wr 5 [1])
   \<and> clk pending_write = 1
   \<and> AddTransaction split_env (rd 5) pending_write =
       Inr (True,
            pending_write\<lparr>last_trans_clk := 1,
              return_queue :=
                [(wr 5 [1])\<lparr>complete_cycle := 1\<rparr>,
                 (rd 5)\<lparr>added_cycle := 1, complete_cycle := 2, payload := [1]\<rparr>]\<rparr>)"
proof -
  have r: "reachable split_env pending_write"
    unfolding pending_write_def by (rule reachable_state_after)
  have a: "\<not> is_write (rd 5)" "\<not> is_MRS (rd 5)"
    by (simp_all add: rd_def)
  have b: "mm_find (pending_wr_q pending_write) (addr (rd 5)) = Some (wr 5 [1])"
    by (simp add: pending_write_def model_defs)
  have c: "clk pending_write = 1" "return_queue pending_write = [(wr 5 [1])\<lparr>complete_cycle := 1\<rparr>]"
    by (simp_all add: pending_write_def model_defs)
  from AddTransaction_read_forwarded [OF r a b]
  have "AddTransaction split_env (rd 5) pending_write =
       Inr (True,
            pending_write\<lparr>last_trans_clk := 1,
              return_queue :=
                [(wr 5 [1])\<lparr>complete_cycle := 1\<rparr>,
                 (rd 5)\<lparr>added_cycle := 1, complete_cycle := 2, payload := [1]\<rparr>]\<rparr>)"
    by (simp add: c wr_def)
  with r a b c(1) show ?thesis by blast
qed

lemma mm_update_map:
  "distinct (map fst m) \<Longrightarrow>
   mm_update k f m = map (\<lambda>e. if fst e = k then (fst e, f (snd e)) else e) m"
proof (induction m)
  case Nil
  then show ?case by simp
next
  case (Cons e m)
  show ?case
  proof (cases "fst e = k")
    case True
    with Cons.prems have "k \<notin> fst ` set m" by auto
    then have "map (\<lambda>e. if fst e = k then (fst e, f (snd e)) else e) m = m"
      by (induction m) auto
    with True show ?thesis by simp
  next
    case False
    with Cons show ?thesis by simp
  qed
qed

text \<open>
  Claim C4. Every transaction with \<open>is_write\<close> is accepted with the result \<open>true\<close> and
  appended to \<^verbatim>\<open>return_queue_\<close> with \<open>added_cycle = clk\<close> and
  \<open>complete_cycle = clk + 1\<close>, whether it is new, merged into a pending write, or also
  marked \<open>is_MRS\<close>. The issue of a write command leaves \<^verbatim>\<open>return_queue_\<close> as it is: the
  acknowledgement does not wait for it.
\<close>

theorem AddTransaction_write_acknowledged:
  "(is_write tr \<longrightarrow>
      (\<exists>s'. AddTransaction env tr s = Inr (True, s')
         \<and> return_queue s' =
             return_queue s @ [tr\<lparr>added_cycle := clk s, complete_cycle := clk s + 1\<rparr>]))
   \<and> (IsWrite cmd \<and> IssueCommand env cmd s = Inr sw \<longrightarrow> return_queue sw = return_queue s)"
  by (auto simp: AddTransaction_def Let_def IssueCommand_eq IsRead_def IsWrite_def
      split: option.splits)

text \<open>
  Claim C4, an instance: in cycle 1, with the write of address 5 pending, a second
  write of address 5 (merged) and a write of address 6 (new) are both acknowledged for
  cycle 2.
\<close>

theorem AddTransaction_write_acknowledged_witness:
  "is_write (wr 5 [2]) \<and> clk pending_write = 1
   \<and> mm_count (pending_wr_q pending_write) 5 = 1
   \<and> (\<exists>s'. AddTransaction split_env (wr 5 [2]) pending_write = Inr (True, s')
         \<and> return_queue s' =
             [(wr 5 [1])\<lparr>complete_cycle := 1\<rparr>, (wr 5 [2])\<lparr>added_cycle := 1, complete_cycle := 2\<rparr>])
   \<and> is_write (wr 6 [3]) \<and> mm_count (pending_wr_q pending_write) 6 = 0
   \<and> (\<exists>s'. AddTransaction split_env (wr 6 [3]) pending_write = Inr (True, s')
         \<and> return_queue s' =
             [(wr 5 [1])\<lparr>complete_cycle := 1\<rparr>, (wr 6 [3])\<lparr>added_cycle := 1, complete_cycle := 2\<rparr>])
   \<and> IsWrite (cmd_at WRITE 5)
   \<and> (\<exists>sw. IssueCommand split_env (cmd_at WRITE 5) pending_write = Inr sw
          \<and> return_queue sw = [(wr 5 [1])\<lparr>complete_cycle := 1\<rparr>])"
proof -
  have a: "is_write (wr 5 [2])" "is_write (wr 6 [3])"
    by (simp_all add: wr_def)
  have w: "IsWrite (cmd_at WRITE 5)"
    by (simp add: IsWrite_def cmd_at_def)
  have "\<exists>sw. IssueCommand split_env (cmd_at WRITE 5) pending_write = Inr sw"
    by (simp add: pending_write_def model_defs)
  then obtain sw where sw: "IssueCommand split_env (cmd_at WRITE 5) pending_write = Inr sw"
    by blast
  have c: "clk pending_write = 1" "return_queue pending_write = [(wr 5 [1])\<lparr>complete_cycle := 1\<rparr>]"
    "mm_count (pending_wr_q pending_write) 5 = 1" "mm_count (pending_wr_q pending_write) 6 = 0"
    by (simp_all add: pending_write_def model_defs)
  have m: "\<exists>s'. AddTransaction split_env (wr 5 [2]) pending_write = Inr (True, s')
         \<and> return_queue s' =
             [(wr 5 [1])\<lparr>complete_cycle := 1\<rparr>, (wr 5 [2])\<lparr>added_cycle := 1, complete_cycle := 2\<rparr>]"
    using AddTransaction_write_acknowledged [of "wr 5 [2]" split_env pending_write] a c
    by simp
  have n: "\<exists>s'. AddTransaction split_env (wr 6 [3]) pending_write = Inr (True, s')
         \<and> return_queue s' =
             [(wr 5 [1])\<lparr>complete_cycle := 1\<rparr>, (wr 6 [3])\<lparr>added_cycle := 1, complete_cycle := 2\<rparr>]"
    using AddTransaction_write_acknowledged [of "wr 6 [3]" split_env pending_write] a c
    by simp
  have "return_queue sw = return_queue pending_write"
    using AddTransaction_write_acknowledged
      [where cmd = "cmd_at WRITE 5" and env = split_env and s = pending_write and sw = sw] w sw
    by simp
  with sw c have i: "\<exists>sw. IssueCommand split_env (cmd_at WRITE 5) pending_write = Inr sw
          \<and> return_queue sw = [(wr 5 [1])\<lparr>complete_cycle := 1\<rparr>]"
    by auto
  from a c m n w i show ?thesis by blast
qed

text \<open>
  Claim C5. In every reachable state \<^verbatim>\<open>pending_wr_q_\<close> holds at most one entry of an
  address. A write whose address is absent is inserted into \<^verbatim>\<open>pending_wr_q_\<close> and
  appended to the transaction queue (\<^verbatim>\<open>unified_queue_\<close> or \<^verbatim>\<open>write_buffer_\<close>); a write
  whose address is present only overwrites the payload of the pending entry, and no
  transaction queue changes. The issue of a write command finds the one entry of its
  address and removes it.
\<close>

theorem pending_wr_q_one_entry_per_address:
  "(reachable env s \<longrightarrow> mm_count (pending_wr_q s) a \<le> 1)
   \<and> (is_write tr \<and> \<not> is_MRS tr \<and> mm_count (pending_wr_q s) (addr tr) = 0 \<longrightarrow>
        (\<exists>s'. AddTransaction env tr s = Inr (True, s')
           \<and> pending_wr_q s' = pending_wr_q s @ [(addr tr, tr\<lparr>added_cycle := clk s\<rparr>)]
           \<and> items (target_queue s' tr) = items (target_queue s tr) @ [tr\<lparr>added_cycle := clk s\<rparr>]))
   \<and> (reachable env s \<and> is_write tr \<and> \<not> is_MRS tr \<and> 0 < mm_count (pending_wr_q s) (addr tr) \<longrightarrow>
        (\<exists>s'. AddTransaction env tr s = Inr (True, s')
           \<and> pending_wr_q s' =
               map (\<lambda>e. if fst e = addr tr then (fst e, (snd e)\<lparr>payload := payload tr\<rparr>) else e)
                   (pending_wr_q s)
           \<and> unified_queue s' = unified_queue s \<and> write_buffer s' = write_buffer s
           \<and> read_queue s' = read_queue s \<and> mrs_buffer s' = mrs_buffer s))
   \<and> (reachable env s \<and> IsWrite cmd \<and> IssueCommand env cmd s = Inr sw \<longrightarrow>
        mm_count (pending_wr_q s) (hex_addr cmd) = 1 \<and> mm_count (pending_wr_q sw) (hex_addr cmd) = 0
        \<and> pending_wr_q sw = filter (\<lambda>e. fst e \<noteq> hex_addr cmd) (pending_wr_q s))"
proof -
  have d: "reachable env s \<Longrightarrow> distinct (map fst (pending_wr_q s))"
    using reachable_inv [of env s] by (simp add: wr_distinct_def)
  have p1: "reachable env s \<longrightarrow> mm_count (pending_wr_q s) a \<le> 1"
    using d mm_count_le_1 by blast
  have p2: "is_write tr \<and> \<not> is_MRS tr \<and> mm_count (pending_wr_q s) (addr tr) = 0 \<longrightarrow>
        (\<exists>s'. AddTransaction env tr s = Inr (True, s')
           \<and> pending_wr_q s' = pending_wr_q s @ [(addr tr, tr\<lparr>added_cycle := clk s\<rparr>)]
           \<and> items (target_queue s' tr) = items (target_queue s tr) @ [tr\<lparr>added_cycle := clk s\<rparr>])"
    by (simp add: AddTransaction_def Let_def mm_insert_def target_queue_def push_back_def)
  have p3: "reachable env s \<and> is_write tr \<and> \<not> is_MRS tr \<and> 0 < mm_count (pending_wr_q s) (addr tr) \<longrightarrow>
        (\<exists>s'. AddTransaction env tr s = Inr (True, s')
           \<and> pending_wr_q s' =
               map (\<lambda>e. if fst e = addr tr then (fst e, (snd e)\<lparr>payload := payload tr\<rparr>) else e)
                   (pending_wr_q s)
           \<and> unified_queue s' = unified_queue s \<and> write_buffer s' = write_buffer s
           \<and> read_queue s' = read_queue s \<and> mrs_buffer s' = mrs_buffer s)"
    using d by (auto simp: AddTransaction_def Let_def mm_update_map updatePayload_def)
  have p4: "reachable env s \<and> IsWrite cmd \<and> IssueCommand env cmd s = Inr sw \<longrightarrow>
        mm_count (pending_wr_q s) (hex_addr cmd) = 1 \<and> mm_count (pending_wr_q sw) (hex_addr cmd) = 0
        \<and> pending_wr_q sw = filter (\<lambda>e. fst e \<noteq> hex_addr cmd) (pending_wr_q s)"
  proof (intro impI)
    assume h: "reachable env s \<and> IsWrite cmd \<and> IssueCommand env cmd s = Inr sw"
    then have nr: "\<not> IsRead cmd" by (auto simp: IsRead_def IsWrite_def)
    from h nr obtain t where t: "mm_find (pending_wr_q s) (hex_addr cmd) = Some t"
      "pending_wr_q sw = mm_erase (hex_addr cmd) (pending_wr_q s)"
      by (auto simp: IssueCommand_eq split: option.splits)
    have dd: "distinct (map fst (pending_wr_q s))" using h d by blast
    have e: "distinct (map fst m) \<Longrightarrow> mm_erase k m = filter (\<lambda>e. fst e \<noteq> k) m" for m k
    proof (induction m)
      case Nil
      then show ?case by simp
    next
      case (Cons x m)
      then show ?case by (auto simp: filter_other_keys)
    qed
    have "mm_count (pending_wr_q s) (hex_addr cmd) \<le> 1"
      using dd by (rule mm_count_le_1)
    moreover have "0 < mm_count (pending_wr_q s) (hex_addr cmd)"
      using t(1) by (rule mm_find_Some_count)
    ultimately have "mm_count (pending_wr_q s) (hex_addr cmd) = 1" by simp
    moreover have "pending_wr_q sw = filter (\<lambda>e. fst e \<noteq> hex_addr cmd) (pending_wr_q s)"
      using t(2) e [OF dd] by simp
    ultimately show "mm_count (pending_wr_q s) (hex_addr cmd) = 1 \<and> mm_count (pending_wr_q sw) (hex_addr cmd) = 0
        \<and> pending_wr_q sw = filter (\<lambda>e. fst e \<noteq> hex_addr cmd) (pending_wr_q s)"
      by (simp add: mm_count_filter_other)
  qed
  from p1 p2 p3 p4 show ?thesis by blast
qed

text \<open>
  Claim C5, an instance: with the write of address 5 pending, a second write of
  address 5 replaces the payload \<open>[1]\<close> by \<open>[2]\<close> and leaves \<^verbatim>\<open>write_buffer_\<close> alone, a
  write of address 6 adds an entry and a transaction, and the issue of \<^verbatim>\<open>WRITE\<close> for
  address 5 empties \<^verbatim>\<open>pending_wr_q_\<close>.
\<close>

theorem pending_wr_q_one_entry_per_address_witness:
  "reachable split_env pending_write
   \<and> mm_count (pending_wr_q pending_write) 5 = 1
   \<and> (\<exists>s'. AddTransaction split_env (wr 5 [2]) pending_write = Inr (True, s')
         \<and> pending_wr_q s' = [(5, wr 5 [2])]
         \<and> write_buffer s' = write_buffer pending_write)
   \<and> (\<exists>s'. AddTransaction split_env (wr 6 [3]) pending_write = Inr (True, s')
         \<and> pending_wr_q s' = [(5, wr 5 [1]), (6, (wr 6 [3])\<lparr>added_cycle := 1\<rparr>)]
         \<and> items (write_buffer s') = [wr 5 [1], (wr 6 [3])\<lparr>added_cycle := 1\<rparr>])
   \<and> (\<exists>sw. IssueCommand split_env (cmd_at WRITE 5) pending_write = Inr sw \<and> pending_wr_q sw = [])"
proof -
  have r: "reachable split_env pending_write"
    unfolding pending_write_def by (rule reachable_state_after)
  have c: "clk pending_write = 1" "pending_wr_q pending_write = [(5, wr 5 [1])]"
    "items (write_buffer pending_write) = [wr 5 [1]]" "\<not> is_unified_queue pending_write"
    by (simp_all add: pending_write_def model_defs)
  have n: "mm_count (pending_wr_q pending_write) 5 = 1"
    by (simp add: c mm_count_def)
  have t: "is_write (wr 5 [2])" "\<not> is_MRS (wr 5 [2])" "addr (wr 5 [2]) = 5"
    "is_write (wr 6 [3])" "\<not> is_MRS (wr 6 [3])" "addr (wr 6 [3]) = 6"
    by (simp_all add: wr_def)
  have m: "\<exists>s'. AddTransaction split_env (wr 5 [2]) pending_write = Inr (True, s')
         \<and> pending_wr_q s' = [(5, wr 5 [2])]
         \<and> write_buffer s' = write_buffer pending_write"
    using pending_wr_q_one_entry_per_address
      [of split_env pending_write 5 "wr 5 [2]" "cmd_at WRITE 5" pending_write] r n t(1-3)
    by (auto simp: c wr_def)
  have w: "\<exists>s'. AddTransaction split_env (wr 6 [3]) pending_write = Inr (True, s')
         \<and> pending_wr_q s' = [(5, wr 5 [1]), (6, (wr 6 [3])\<lparr>added_cycle := 1\<rparr>)]
         \<and> items (write_buffer s') = [wr 5 [1], (wr 6 [3])\<lparr>added_cycle := 1\<rparr>]"
    by (simp add: pending_write_def model_defs)
  have i: "\<exists>sw. IssueCommand split_env (cmd_at WRITE 5) pending_write = Inr sw \<and> pending_wr_q sw = []"
    by (simp add: pending_write_def model_defs)
  from r n m w i show ?thesis by blast
qed

lemma capacity_push_back: "vsize (push_back g x v) \<le> capacity (push_back g x v)"
  by (simp add: push_back_def vsize_def)

lemma items_push_back [simp]: "items (push_back g x v) = items v @ [x]"
  by (simp add: push_back_def)

text \<open>
  Claim C9. In every reachable state \<^verbatim>\<open>AddTransaction\<close> returns \<open>true\<close>, for every
  transaction. No capacity is looked at: a mode register transaction, a write of an
  address without pending write, and a read of an address without pending write or
  read are appended to the buffer that \<^verbatim>\<open>WillAcceptTransaction\<close> examines, also when
  that buffer is full, and the capacity of the buffer covers the new size.
\<close>

theorem AddTransaction_never_rejects:
  assumes "reachable env s"
  shows "\<exists>s'. AddTransaction env tr s = Inr (True, s')
     \<and> (is_MRS tr
          \<or> (is_write tr \<and> mm_count (pending_wr_q s) (addr tr) = 0)
          \<or> (\<not> is_write tr \<and> mm_count (pending_wr_q s) (addr tr) = 0
                \<and> mm_count (pending_rd_q s) (addr tr) = 0)
        \<longrightarrow> items (target_queue s' tr) = items (target_queue s tr) @ [tr\<lparr>added_cycle := clk s\<rparr>]
            \<and> vsize (target_queue s' tr) \<le> capacity (target_queue s' tr))
     \<and> WillAcceptTransaction_MRS s (addr tr) (is_write tr) (is_MRS tr)
         = (vsize (target_queue s tr) < capacity (target_queue s tr))"
proof -
  have d: "distinct (map fst (pending_wr_q s))"
    using reachable_inv [OF assms] by (simp add: wr_distinct_def)
  have le: "mm_count (pending_wr_q s) (addr tr) \<le> 1"
    using d by (rule mm_count_le_1)
  have f: "0 < mm_count (pending_wr_q s) (addr tr) \<Longrightarrow>
           \<exists>w. mm_find (pending_wr_q s) (addr tr) = Some w"
    using mm_find_None_iff [of "pending_wr_q s" "addr tr"] mm_count_0_iff [of "pending_wr_q s" "addr tr"]
    by auto
  have wa: "WillAcceptTransaction_MRS s (addr tr) (is_write tr) (is_MRS tr)
         = (vsize (target_queue s tr) < capacity (target_queue s tr))"
    by (simp add: WillAcceptTransaction_MRS_def target_queue_def)
  have main: "\<exists>s'. AddTransaction env tr s = Inr (True, s')
     \<and> (is_MRS tr
          \<or> (is_write tr \<and> mm_count (pending_wr_q s) (addr tr) = 0)
          \<or> (\<not> is_write tr \<and> mm_count (pending_wr_q s) (addr tr) = 0
                \<and> mm_count (pending_rd_q s) (addr tr) = 0)
        \<longrightarrow> items (target_queue s' tr) = items (target_queue s tr) @ [tr\<lparr>added_cycle := clk s\<rparr>]
            \<and> vsize (target_queue s' tr) \<le> capacity (target_queue s' tr))"
  proof -
    consider (m) "is_MRS tr" | (w) "\<not> is_MRS tr" "is_write tr"
      | (fw) "\<not> is_MRS tr" "\<not> is_write tr" "0 < mm_count (pending_wr_q s) (addr tr)"
      | (r) "\<not> is_MRS tr" "\<not> is_write tr" "mm_count (pending_wr_q s) (addr tr) = 0"
      by auto
    then show ?thesis
    proof cases
      case m
      then show ?thesis
        by (simp add: AddTransaction_def Let_def target_queue_def capacity_push_back)
    next
      case w
      then show ?thesis
        by (simp add: AddTransaction_def Let_def target_queue_def capacity_push_back)
    next
      case fw
      from f [OF fw(3)] obtain x where x: "mm_find (pending_wr_q s) (addr tr) = Some x" by blast
      from fw le have "mm_count (pending_wr_q s) (addr tr) = 1" by simp
      with fw x show ?thesis
        by (simp add: AddTransaction_def Let_def)
    next
      case r
      then show ?thesis
        by (simp add: AddTransaction_def Let_def target_queue_def capacity_push_back
            mm_insert_def mm_count_def)
    qed
  qed
  from main wa show ?thesis by blast
qed

text \<open>
  Claim C9, an instance: the write buffer holds \<open>trans_queue_size = 2\<close> writes, and
  \<^verbatim>\<open>WillAcceptTransaction\<close> is false for a write; a third write is accepted with
  \<open>true\<close>, the buffer holds three writes and its capacity has grown to 4.
\<close>

theorem AddTransaction_never_rejects_witness:
  "reachable split_env full_write_buffer
   \<and> vsize (write_buffer full_write_buffer) = 2
   \<and> capacity (write_buffer full_write_buffer) = trans_queue_size (cfg split_env)
   \<and> \<not> WillAcceptTransaction full_write_buffer 7 True
   \<and> \<not> WillAcceptTransaction_MRS full_write_buffer 7 True False
   \<and> (\<exists>s'. AddTransaction split_env (wr 7 [3]) full_write_buffer = Inr (True, s')
         \<and> items (write_buffer s') = [wr 5 [1], wr 6 [2], wr 7 [3]]
         \<and> capacity (write_buffer s') = 4)"
proof -
  have r: "reachable split_env full_write_buffer"
    unfolding full_write_buffer_def by (rule reachable_state_after)
  have c: "vsize (write_buffer full_write_buffer) = 2"
    "capacity (write_buffer full_write_buffer) = trans_queue_size (cfg split_env)"
    "\<not> WillAcceptTransaction full_write_buffer 7 True"
    "\<not> WillAcceptTransaction_MRS full_write_buffer 7 True False"
    by (simp_all add: full_write_buffer_def model_defs)
  have "\<exists>s'. AddTransaction split_env (wr 7 [3]) full_write_buffer = Inr (True, s')
         \<and> items (write_buffer s') = [wr 5 [1], wr 6 [2], wr 7 [3]]
         \<and> capacity (write_buffer s') = 4"
    using AddTransaction_never_rejects [OF r, of "wr 7 [3]"]
    by (simp add: full_write_buffer_def model_defs)
  with r c show ?thesis by blast
qed

section \<open>The write-drain thresholds\<close>

text \<open>
  A write or a read that is no mode register transaction becomes a write or a read
  command.
\<close>

lemma TransToCommand_write: "is_write t \<Longrightarrow> \<not> is_MRS t \<Longrightarrow> IsWrite (TransToCommand env s t)"
  by (simp add: TransToCommand_def Let_def IsWrite_def)

lemma TransToCommand_read: "\<not> is_write t \<Longrightarrow> \<not> IsWrite (TransToCommand env s t)"
  by (simp add: TransToCommand_def Let_def IsWrite_def)

text \<open>
  The walk of \<^verbatim>\<open>ScheduleTransaction\<close> leaves \<^verbatim>\<open>write_draining_\<close> alone on the mode register
  buffer and on a queue of reads; on a buffer of writes, with split queues, the
  first write that the command queue accepts decides.
\<close>

lemma schedule_walk_pop_draining:
  "write_draining (schedule_walk env True q i ts s) = write_draining s"
  by (cases ts) (simp_all add: Let_def cmd_queue_AddCommand_def)

lemma schedule_walk_reads_draining:
  "list_all (\<lambda>t. \<not> is_write t \<and> \<not> is_MRS t) ts \<Longrightarrow>
   write_draining (schedule_walk env False q i ts s) = write_draining s"
  by (induction ts arbitrary: i) (simp_all add: Let_def cmd_queue_AddCommand_def TransToCommand_read)

lemma schedule_walk_writes:
  "\<not> is_unified_queue s \<Longrightarrow> list_all (\<lambda>t. is_write t \<and> \<not> is_MRS t) ts \<Longrightarrow>
   write_draining (schedule_walk env False q i ts s) =
     (case find (acceptable env s) ts of
        None \<Rightarrow> write_draining s
      | Some t \<Rightarrow> if 0 < mm_count (pending_rd_q s) (addr t) then 0 else write_draining s - 1)
   \<and> cmd_queue_added (schedule_walk env False q i ts s) =
       cmd_queue_added s @
       (case find (acceptable env s) ts of
          None \<Rightarrow> []
        | Some t \<Rightarrow> if 0 < mm_count (pending_rd_q s) (addr t) then [] else [TransToCommand env s t])"
  by (induction ts arbitrary: i)
     (simp_all add: Let_def cmd_queue_AddCommand_def TransToCommand_write acceptable_def)

text \<open>Every public call keeps writes in the write buffer and reads in the read queue.\<close>

lemma AddTransaction_typed:
  assumes "AddTransaction env tr s = Inr (b, s')" and "queues_typed s"
  shows "queues_typed s'"
  using assms
  by (auto simp: AddTransaction_def Let_def queues_typed_def push_back_def
      split: if_splits option.splits)

lemma ReturnDoneTrans_typed:
  assumes "ReturnDoneTrans env c s = Inr (p, s')" and "queues_typed s"
  shows "queues_typed s'"
  using assms
  by (auto simp: ReturnDoneTrans_def queues_typed_def split: sum.splits option.splits prod.splits)

lemma GetRespData_typed:
  assumes "GetRespData s = Inr (d, s')" and "queues_typed s"
  shows "queues_typed s'"
  using assms by (auto simp: GetRespData_def queues_typed_def split: list.splits)

lemma IssueCommand_typed:
  assumes "IssueCommand env cmd s = Inr s'" and "queues_typed s"
  shows "queues_typed s'"
  using assms
  by (auto simp: IssueCommand_eq queues_typed_def split: if_splits option.splits)

lemma sref_walk_typed:
  "sref_walk env rs s = Inr s' \<Longrightarrow> queues_typed s \<Longrightarrow> queues_typed s'"
proof (induction rs)
  case Nil
  then show ?case by simp
next
  case (Cons i rs)
  then show ?case
    by (auto simp: Let_def split: if_splits dest: IssueCommand_typed)
qed

lemma ClockTick_lrdimm_typed:
  assumes "ClockTick_lrdimm env s = Inr s'" and "queues_typed s"
  shows "queues_typed s'"
  using assms
  by (auto simp: ClockTick_lrdimm_def Let_def queues_typed_def split: if_splits)

lemma queues_typed_world [simp]: "queues_typed (s\<lparr>world := w\<rparr>) = queues_typed s"
  by (simp add: queues_typed_def)

lemma queues_typed_clk [simp]: "queues_typed (s\<lparr>clk := c\<rparr>) = queues_typed s"
  by (simp add: queues_typed_def)

lemma ClockTick_issue_typed:
  assumes "ClockTick_issue env s = Inr (b, s')" and "queues_typed s"
  shows "queues_typed s'"
  using assms unfolding ClockTick_issue_def Let_def
  by (auto split: if_splits sum.splits dest!: IssueCommand_typed)

lemma queues_typed_queue_erase: "queues_typed s \<Longrightarrow> queues_typed (queue_erase q i s)"
  by (cases q) (simp_all add: queues_typed_def erase_at_def list_all_erase)

lemma schedule_walk_typed:
  "queues_typed s \<Longrightarrow> queues_typed (schedule_walk env pop q i ts s)"
proof (induction ts arbitrary: i pop)
  case Nil
  then show ?case by simp
next
  case (Cons t ts)
  have a: "\<And>c s'. write_buffer s' = write_buffer s \<Longrightarrow> read_queue s' = read_queue s \<Longrightarrow>
             queues_typed (queue_erase q i (cmd_queue_AddCommand env c s'))"
    using Cons.prems
    by (intro queues_typed_queue_erase) (simp add: queues_typed_def cmd_queue_AddCommand_def)
  show ?case
    using Cons by (simp add: Let_def a) (simp add: queues_typed_def)
qed

lemma ScheduleTransaction_typed: "queues_typed s \<Longrightarrow> queues_typed (ScheduleTransaction env s)"
  unfolding ScheduleTransaction_def Let_def
  by (rule schedule_walk_typed) (simp add: queues_typed_def)

lemma ClockTick_typed:
  assumes "ClockTick env s = Inr s'" and "queues_typed s"
  shows "queues_typed s'"
proof -
  have c: "ClockTick env s =
      (case ClockTick_lrdimm env (s\<lparr>world := refresh_ClockTick env (world s)\<rparr>) of
        Inl e \<Rightarrow> Inl e
      | Inr s1 \<Rightarrow>
          (case ClockTick_issue env s1 of
             Inl e \<Rightarrow> Inl e
           | Inr issued \<Rightarrow>
               (case ClockTick_sref env (fst issued) (ClockTick_power env (snd issued)) of
                  Inl e \<Rightarrow> Inl e
                | Inr s3 \<Rightarrow>
                    (let s4 = ScheduleTransaction env s3;
                         s5 = s4\<lparr>clk := clk s4 + 1\<rparr>
                     in Inr (s5\<lparr>world := cmd_queue_ClockTick env (world s5)\<rparr>)))))"
    by (simp add: ClockTick_def)
  from assms(1) c obtain s1 where
    s1: "ClockTick_lrdimm env (s\<lparr>world := refresh_ClockTick env (world s)\<rparr>) = Inr s1"
    by (cases "ClockTick_lrdimm env (s\<lparr>world := refresh_ClockTick env (world s)\<rparr>)") simp_all
  from assms(1) c s1 obtain p where p: "ClockTick_issue env s1 = Inr p"
    by (cases "ClockTick_issue env s1") simp_all
  obtain b s2 where bs: "p = (b, s2)" by (cases p)
  from assms(1) c s1 p bs obtain s3 where
    s3: "ClockTick_sref env b (ClockTick_power env s2) = Inr s3"
    by (cases "ClockTick_sref env b (ClockTick_power env s2)") simp_all
  have s': "s' = (ScheduleTransaction env s3)\<lparr>clk := clk (ScheduleTransaction env s3) + 1,
              world := cmd_queue_ClockTick env (world (ScheduleTransaction env s3))\<rparr>"
    using assms(1) c s1 p bs s3 by (auto simp: Let_def)
  have i1: "queues_typed s1"
    using ClockTick_lrdimm_typed [OF s1] assms(2) by simp
  have i2: "queues_typed s2"
    using ClockTick_issue_typed [of env s1 b s2] p bs i1 by simp
  have i2': "queues_typed (ClockTick_power env s2)"
    using i2 by (simp add: ClockTick_power_def)
  have i3: "queues_typed s3"
    using s3 i2' by (auto simp: ClockTick_sref_def split: if_splits dest: sref_walk_typed)
  show ?thesis
    using ScheduleTransaction_typed [OF i3] by (simp add: s')
qed

lemma reachable_typed: "reachable env s \<Longrightarrow> queues_typed s"
proof (induction rule: reachable.induct)
  case (reach_init w)
  show ?case
    by (simp add: Controller_init_def Let_def queues_typed_def reserve_def empty_vec_def)
next
  case (reach_add s tr b s')
  then show ?case using AddTransaction_typed by blast
next
  case (reach_tick s s')
  then show ?case using ClockTick_typed by blast
next
  case (reach_done s c p s')
  then show ?case using ReturnDoneTrans_typed by blast
next
  case (reach_resp s d s')
  then show ?case using GetRespData_typed by blast
qed

text \<open>
  Claim C7. Let \<^verbatim>\<open>ScheduleTransaction\<close> run in a reachable state with split queues and
  \<open>write_draining = 0\<close>, and let \<open>n\<close> be the length of \<^verbatim>\<open>write_buffer_\<close>. When \<open>n\<close> is at
  least the capacity, or \<open>n\<close> is more than 8 and the command queue is empty, the call
  sets \<^verbatim>\<open>write_draining_\<close> to \<open>n\<close> on entry: it is the call that starts with
  \<open>write_draining = n\<close>. The drain that has started goes on in the same call, and
  \<^verbatim>\<open>write_draining_\<close> after the call is \<open>n\<close> when a mode register transaction waits or the
  command queue accepts none of the writes, \<open>n - 1\<close> when the first accepted write went
  to the command queue, and 0 when a read of the address of that write is pending.
  In every other case nothing is set, and \<^verbatim>\<open>write_draining_\<close> is 0 after the call. When
  the drain starts with a write in the buffer and no mode register transaction, the
  call serves the write buffer: what it hands to the command queue is the first
  accepted write, or nothing.
\<close>

theorem ScheduleTransaction_starts_drain:
  assumes "reachable env s" and "\<not> is_unified_queue s" and "write_draining s = 0"
  shows "((capacity (write_buffer s) \<le> vsize (write_buffer s)
            \<or> (8 < vsize (write_buffer s) \<and> QueueEmpty env (world s))) \<longrightarrow>
          ScheduleTransaction env s =
            ScheduleTransaction env (s\<lparr>write_draining := int (vsize (write_buffer s))\<rparr>))
     \<and> write_draining (ScheduleTransaction env s) =
         (if capacity (write_buffer s) \<le> vsize (write_buffer s)
             \<or> (8 < vsize (write_buffer s) \<and> QueueEmpty env (world s))
          then (if 0 < vsize (mrs_buffer s) then int (vsize (write_buffer s))
                else (case find (acceptable env s) (items (write_buffer s)) of
                        None \<Rightarrow> int (vsize (write_buffer s))
                      | Some t \<Rightarrow>
                          if 0 < mm_count (pending_rd_q s) (addr t) then 0
                          else int (vsize (write_buffer s)) - 1))
          else 0)
     \<and> ((capacity (write_buffer s) \<le> vsize (write_buffer s)
            \<or> (8 < vsize (write_buffer s) \<and> QueueEmpty env (world s)))
          \<and> 0 < vsize (write_buffer s) \<and> vsize (mrs_buffer s) = 0 \<longrightarrow>
          scheduled env s =
            (case find (acceptable env s) (items (write_buffer s)) of
               None \<Rightarrow> []
             | Some t \<Rightarrow>
                 if 0 < mm_count (pending_rd_q s) (addr t) then []
                 else [TransToCommand env s t]))"
proof -
  let ?n = "vsize (write_buffer s)"
  let ?due = "capacity (write_buffer s) \<le> ?n \<or> (8 < ?n \<and> QueueEmpty env (world s))"
  let ?s1 = "drain_start env s"
  have ty: "queues_typed s" using assms(1) by (rule reachable_typed)
  have wr: "list_all (\<lambda>t. is_write t \<and> \<not> is_MRS t) (items (write_buffer s))"
    and rd: "list_all (\<lambda>t. \<not> is_write t \<and> \<not> is_MRS t) (items (read_queue s))"
    using ty by (simp_all add: queues_typed_def)
  have d: "write_draining ?s1 = (if ?due then int ?n else 0)"
    using assms(2,3) by (simp add: drain_start_def)
  have u: "\<not> is_unified_queue ?s1" using assms(2) by simp
  have acc: "acceptable env ?s1 = acceptable env s"
    by (rule ext) (simp add: acceptable_def)
  have same: "?due \<longrightarrow> ScheduleTransaction env s =
      ScheduleTransaction env (s\<lparr>write_draining := int ?n\<rparr>)"
    using assms(2,3) by (auto simp: ScheduleTransaction_def drain_start_def Let_def)
  have post: "write_draining (ScheduleTransaction env s) =
         (if ?due
          then (if 0 < vsize (mrs_buffer s) then int ?n
                else (case find (acceptable env s) (items (write_buffer s)) of
                        None \<Rightarrow> int ?n
                      | Some t \<Rightarrow>
                          if 0 < mm_count (pending_rd_q s) (addr t) then 0
                          else int ?n - 1))
          else 0)"
  proof (cases "0 < vsize (mrs_buffer s)")
    case True
    then have "write_draining (ScheduleTransaction env s) = write_draining ?s1"
      by (simp add: ScheduleTransaction_def Let_def schedule_walk_pop_draining)
    with d True show ?thesis by simp
  next
    case False
    show ?thesis
    proof (cases "?due \<and> 0 < ?n")
      case True
      then have st: "ScheduleTransaction env s =
          schedule_walk env False WRITE_BUFFER 0 (items (write_buffer s)) ?s1"
        using False assms(2) d by (simp add: ScheduleTransaction_def Let_def)
      show ?thesis
        unfolding st using schedule_walk_writes [OF u wr, of env WRITE_BUFFER 0] True False d
        by (simp add: acc split: option.split)
    next
      case nd: False
      then have st: "ScheduleTransaction env s =
          schedule_walk env False READ_QUEUE 0 (items (read_queue s)) ?s1"
        using False assms(2) d by (auto simp: ScheduleTransaction_def Let_def)
      have "write_draining (ScheduleTransaction env s) = write_draining ?s1"
        unfolding st using rd by (rule schedule_walk_reads_draining)
      moreover have "?n = 0 \<Longrightarrow> items (write_buffer s) = []"
        by (simp add: vsize_def)
      ultimately show ?thesis using nd False d by auto
    qed
  qed
  have sch: "?due \<and> 0 < ?n \<and> vsize (mrs_buffer s) = 0 \<longrightarrow>
          scheduled env s =
            (case find (acceptable env s) (items (write_buffer s)) of
               None \<Rightarrow> []
             | Some t \<Rightarrow>
                 if 0 < mm_count (pending_rd_q s) (addr t) then []
                 else [TransToCommand env s t])"
  proof
    assume a: "?due \<and> 0 < ?n \<and> vsize (mrs_buffer s) = 0"
    then have st: "ScheduleTransaction env s =
        schedule_walk env False WRITE_BUFFER 0 (items (write_buffer s)) ?s1"
      using assms(2) d by (simp add: ScheduleTransaction_def Let_def)
    show "scheduled env s =
            (case find (acceptable env s) (items (write_buffer s)) of
               None \<Rightarrow> []
             | Some t \<Rightarrow>
                 if 0 < mm_count (pending_rd_q s) (addr t) then []
                 else [TransToCommand env s t])"
      unfolding scheduled_def st
      using schedule_walk_writes [OF u wr, of env WRITE_BUFFER 0]
      by (simp add: acc split: option.split)
  qed
  from same post sch show ?thesis by blast
qed

text \<open>
  Claim C7, four instances. Nine writes in a write buffer of capacity 16 and an empty
  command queue: the drain starts with 9, the first write goes to the command queue
  and the counter is 8 after the call. The same with a mode register transaction:
  the drain starts with 9 and the counter is 9 after the call. One write in a buffer
  of capacity 2: no drain, the counter stays 0. A full buffer of two writes, with a
  pending read of the address of the first: the drain starts and is given up in the
  same call, nothing goes to the command queue.
\<close>

theorem ScheduleTransaction_starts_drain_witness:
  "reachable wide_env nine_writes \<and> \<not> is_unified_queue nine_writes
   \<and> write_draining nine_writes = 0
   \<and> vsize (write_buffer nine_writes) = 9 \<and> capacity (write_buffer nine_writes) = 16
   \<and> QueueEmpty wide_env (world nine_writes) \<and> vsize (mrs_buffer nine_writes) = 0
   \<and> map_option addr (find (acceptable wide_env nine_writes) (items (write_buffer nine_writes)))
       = Some 1
   \<and> mm_count (pending_rd_q nine_writes) 1 = 0
   \<and> ScheduleTransaction wide_env nine_writes =
       ScheduleTransaction wide_env (nine_writes\<lparr>write_draining := 9\<rparr>)
   \<and> write_draining (ScheduleTransaction wide_env nine_writes) = 8
   \<and> scheduled wide_env nine_writes = [cmd_at WRITE 1]
   \<and> reachable wide_env nine_writes_mrs \<and> \<not> is_unified_queue nine_writes_mrs
   \<and> write_draining nine_writes_mrs = 0
   \<and> vsize (write_buffer nine_writes_mrs) = 9 \<and> QueueEmpty wide_env (world nine_writes_mrs)
   \<and> vsize (mrs_buffer nine_writes_mrs) = 1
   \<and> ScheduleTransaction wide_env nine_writes_mrs =
       ScheduleTransaction wide_env (nine_writes_mrs\<lparr>write_draining := 9\<rparr>)
   \<and> write_draining (ScheduleTransaction wide_env nine_writes_mrs) = 9
   \<and> reachable split_env pending_write \<and> \<not> is_unified_queue pending_write
   \<and> write_draining pending_write = 0
   \<and> vsize (write_buffer pending_write) = 1 \<and> capacity (write_buffer pending_write) = 2
   \<and> write_draining (ScheduleTransaction split_env pending_write) = 0
   \<and> reachable split_env blocked_write \<and> \<not> is_unified_queue blocked_write
   \<and> write_draining blocked_write = 0
   \<and> vsize (write_buffer blocked_write) = 2 \<and> capacity (write_buffer blocked_write) = 2
   \<and> vsize (mrs_buffer blocked_write) = 0
   \<and> map_option addr (find (acceptable split_env blocked_write) (items (write_buffer blocked_write)))
       = Some 5
   \<and> mm_count (pending_rd_q blocked_write) 5 = 1
   \<and> write_draining (ScheduleTransaction split_env blocked_write) = 0
   \<and> scheduled split_env blocked_write = []"
proof -
  have r: "reachable wide_env nine_writes" "reachable wide_env nine_writes_mrs"
    "reachable split_env pending_write" "reachable split_env blocked_write"
    unfolding nine_writes_def nine_writes_mrs_def pending_write_def blocked_write_def
    by (rule reachable_state_after)+
  have a: "\<not> is_unified_queue nine_writes" "write_draining nine_writes = 0"
    "vsize (write_buffer nine_writes) = 9" "capacity (write_buffer nine_writes) = 16"
    "QueueEmpty wide_env (world nine_writes)" "vsize (mrs_buffer nine_writes) = 0"
    "mm_count (pending_rd_q nine_writes) 1 = 0"
    by (simp_all add: nine_writes_def model_defs)
  have a': "find (acceptable wide_env nine_writes) (items (write_buffer nine_writes))
      = Some (wr 1 [])"
    "TransToCommand wide_env nine_writes (wr 1 []) = cmd_at WRITE 1"
    "addr (wr 1 []) = 1"
    by (simp_all add: nine_writes_def model_defs)
  have b: "\<not> is_unified_queue nine_writes_mrs" "write_draining nine_writes_mrs = 0"
    "vsize (write_buffer nine_writes_mrs) = 9" "QueueEmpty wide_env (world nine_writes_mrs)"
    "vsize (mrs_buffer nine_writes_mrs) = 1"
    by (simp_all add: nine_writes_mrs_def model_defs)
  have c: "\<not> is_unified_queue pending_write" "write_draining pending_write = 0"
    "vsize (write_buffer pending_write) = 1" "capacity (write_buffer pending_write) = 2"
    by (simp_all add: pending_write_def model_defs)
  have d: "\<not> is_unified_queue blocked_write" "write_draining blocked_write = 0"
    "vsize (write_buffer blocked_write) = 2" "capacity (write_buffer blocked_write) = 2"
    "vsize (mrs_buffer blocked_write) = 0"
    "mm_count (pending_rd_q blocked_write) 5 = 1"
    by (simp_all add: blocked_write_def model_defs)
  have d': "find (acceptable split_env blocked_write) (items (write_buffer blocked_write))
      = Some (wr 5 [1])"
    "addr (wr 5 [1]) = 5"
    by (simp_all add: blocked_write_def model_defs)
  note t1 = ScheduleTransaction_starts_drain [OF r(1) a(1,2)]
  have 1: "ScheduleTransaction wide_env nine_writes =
       ScheduleTransaction wide_env (nine_writes\<lparr>write_draining := 9\<rparr>)"
    using t1 [THEN conjunct1] a by simp
  have p1: "write_draining (ScheduleTransaction wide_env nine_writes) = 8"
    "scheduled wide_env nine_writes = [cmd_at WRITE 1]"
    using t1 [THEN conjunct2] a a' by simp_all
  note t2 = ScheduleTransaction_starts_drain [OF r(2) b(1,2)]
  have 2: "ScheduleTransaction wide_env nine_writes_mrs =
       ScheduleTransaction wide_env (nine_writes_mrs\<lparr>write_draining := 9\<rparr>)"
    using t2 [THEN conjunct1] b by simp
  have p2: "write_draining (ScheduleTransaction wide_env nine_writes_mrs) = 9"
    using t2 [THEN conjunct2] b by simp
  have 3: "write_draining (ScheduleTransaction split_env pending_write) = 0"
    using ScheduleTransaction_starts_drain [OF r(3) c(1,2), THEN conjunct2] c by simp
  have 4: "write_draining (ScheduleTransaction split_env blocked_write) = 0"
    "scheduled split_env blocked_write = []"
    using ScheduleTransaction_starts_drain [OF r(4) d(1,2), THEN conjunct2] d d' by simp_all
  have 5: "map_option addr
        (find (acceptable wide_env nine_writes) (items (write_buffer nine_writes))) = Some 1"
    "map_option addr
        (find (acceptable split_env blocked_write) (items (write_buffer blocked_write))) = Some 5"
    by (simp_all add: a' d')
  from r a 1 p1 b 2 p2 c 3 d 4 5 show ?thesis by blast
qed


section \<open>ClockTick: the read response of the on-board buffer\<close>

lemma copy_words_prefix:
  "k \<le> length d \<Longrightarrow> length p = length d \<Longrightarrow>
   foldl (\<lambda>p' j. p'[j := d ! j]) p [0..<k] = take k d @ drop k p"
proof (induction k)
  case 0
  then show ?case by simp
next
  case (Suc k)
  then have k: "k < length d" "k < length p" by simp_all
  have "(take k d @ drop k p)[k := d ! k] = take k d @ (drop k p)[0 := d ! k]"
    using k by (simp add: list_update_append)
  also have "(drop k p)[0 := d ! k] = d ! k # drop (Suc k) p"
    using k by (simp add: Cons_nth_drop_Suc [symmetric])
  also have "take k d @ d ! k # drop (Suc k) p = take (Suc k) d @ drop (Suc k) p"
    using k by (simp add: take_Suc_conv_app_nth)
  finally show ?case
    using Suc by simp
qed

lemma copy_words_resize: "copy_words d (resize_words (length d) p) = d"
proof -
  have "length (resize_words (length d) p) = length d"
    by (simp add: resize_words_def)
  then show ?thesis
    using copy_words_prefix [of "length d" d "resize_words (length d) p"]
    by (simp add: copy_words_def)
qed

lemma attach_resp_eq:
  "attach_resp a d pre ts b =
     (b \<or> (\<exists>t \<in> set ts. addr t = a),
      pre @ map (\<lambda>t. if addr t = a then t\<lparr>payload := d\<rparr> else t) ts)"
  by (induction ts arbitrary: pre b) (auto simp: copy_words_resize)

lemma IssueCommand_return_queue:
  "IssueCommand env cmd s = Inr s' \<Longrightarrow> \<exists>ex. return_queue s' = return_queue s @ ex"
  by (auto simp: IssueCommand_eq split: if_splits option.splits)

lemma ClockTick_issue_return_queue:
  assumes "ClockTick_issue env s = Inr (b, s')"
  shows "\<exists>ex. return_queue s' = return_queue s @ ex"
proof (cases "IsValid (fst (select_command env s))")
  case False
  with assms have "return_queue s' = return_queue s"
    by (auto simp: ClockTick_issue_def Let_def)
  then show ?thesis by simp
next
  case True
  with assms obtain s2 where
    s2: "IssueCommand env (fst (select_command env s)) (s\<lparr>world := snd (select_command env s)\<rparr>)
           = Inr s2"
    by (auto simp: ClockTick_issue_def Let_def split: sum.splits)
  from IssueCommand_return_queue [OF s2] obtain e1 where
    e1: "return_queue s2 = return_queue s @ e1" by auto
  have "return_queue s' = return_queue s2
        \<or> (\<exists>c s4. return_queue s4 = return_queue s2 \<and> IssueCommand env c s4 = Inr s')"
    using assms True s2 unfolding ClockTick_issue_def Let_def
    by (simp split: if_splits sum.splits) force+
  then show ?thesis
  proof
    assume "return_queue s' = return_queue s2"
    with e1 show ?thesis by simp
  next
    assume "\<exists>c s4. return_queue s4 = return_queue s2 \<and> IssueCommand env c s4 = Inr s'"
    then obtain c s4 where s4: "return_queue s4 = return_queue s2" "IssueCommand env c s4 = Inr s'"
      by blast
    from IssueCommand_return_queue [OF s4(2)] obtain e2 where
      "return_queue s' = return_queue s4 @ e2" by auto
    with s4(1) e1 show ?thesis by simp
  qed
qed

lemma sref_walk_return_queue:
  "sref_walk env rs s = Inr s' \<Longrightarrow> \<exists>ex. return_queue s' = return_queue s @ ex"
proof (induction rs)
  case Nil
  then show ?case by simp
next
  case (Cons i rs)
  then show ?case
    by (auto simp: Let_def split: if_splits dest: IssueCommand_return_queue)
qed

text \<open>
  Claim C10. With an on-board buffer, let the buffer hand \<^verbatim>\<open>ClockTick\<close> a valid read
  response for the address \<open>hex_addr\<close> with the data \<open>d\<close>. Then the payload of every
  entry of \<^verbatim>\<open>return_queue_\<close> with that address becomes \<open>d\<close>, whether the entry is a
  read or the acknowledgement of a write, and the other entries stay as they are;
  the entries that the rest of the cycle appends come behind them. The cycle stops on
  the assertion when no entry has that address, and this step stops in no other case.
\<close>

theorem ClockTick_lrdimm_attaches_to_all:
  assumes "is_LRDIMM (cfg env)"
    and "getRDResp env (updateBoB env (refresh_ClockTick env (world s))) = ((resp, d), w)"
    and "IsValid resp" and "IsRead resp"
  shows "ClockTick_lrdimm env (s\<lparr>world := refresh_ClockTick env (world s)\<rparr>) =
     (if \<exists>t \<in> set (return_queue s). addr t = hex_addr resp
      then Inr (s\<lparr>world := w,
                  return_queue :=
                    map (\<lambda>t. if addr t = hex_addr resp then t\<lparr>payload := d\<rparr> else t)
                        (return_queue s)\<rparr>)
      else Inl AssertFailed)
   \<and> ((\<forall>t \<in> set (return_queue s). addr t \<noteq> hex_addr resp) \<longrightarrow>
        ClockTick env s = Inl AssertFailed)
   \<and> (\<forall>s'. ClockTick env s = Inr s' \<longrightarrow>
        (\<exists>ex. return_queue s' =
           map (\<lambda>t. if addr t = hex_addr resp then t\<lparr>payload := d\<rparr> else t) (return_queue s)
           @ ex))"
proof -
  let ?f = "\<lambda>t. if addr t = hex_addr resp then t\<lparr>payload := d\<rparr> else t"
  have l: "ClockTick_lrdimm env (s\<lparr>world := refresh_ClockTick env (world s)\<rparr>) =
     (if \<exists>t \<in> set (return_queue s). addr t = hex_addr resp
      then Inr (s\<lparr>world := w, return_queue := map ?f (return_queue s)\<rparr>)
      else Inl AssertFailed)"
    using assms by (simp add: ClockTick_lrdimm_def Let_def attach_resp_eq)
  have a: "(\<forall>t \<in> set (return_queue s). addr t \<noteq> hex_addr resp) \<longrightarrow>
        ClockTick env s = Inl AssertFailed"
    by (simp add: ClockTick_def l)
  have r: "\<exists>ex. return_queue s' = map ?f (return_queue s) @ ex" if "ClockTick env s = Inr s'" for s'
  proof -
    from that l obtain b s2 s3 where
      steps: "ClockTick_issue env (s\<lparr>world := w, return_queue := map ?f (return_queue s)\<rparr>) = Inr (b, s2)"
        "ClockTick_sref env b (ClockTick_power env s2) = Inr s3"
        "return_queue s' = return_queue (ScheduleTransaction env s3)"
      by (auto simp: ClockTick_def Let_def split: sum.splits if_splits)
    from ClockTick_issue_return_queue [OF steps(1)] obtain e1 where
      e1: "return_queue s2 = map ?f (return_queue s) @ e1" by auto
    from steps(2) have "\<exists>ex. return_queue s3 = return_queue s2 @ ex"
      by (auto simp: ClockTick_sref_def ClockTick_power_def split: if_splits
          dest!: sref_walk_return_queue)
    then obtain e2 where e2: "return_queue s3 = return_queue s2 @ e2" by blast
    show ?thesis
      by (simp add: steps(3) ScheduleTransaction_frame e1 e2)
  qed
  from l a r show ?thesis by blast
qed

text \<open>
  Claim C10, an instance: \<^verbatim>\<open>return_queue_\<close> holds the acknowledgement of the write of
  address 5 and the read of address 5; the response for address 5 with the data
  \<open>[7, 8]\<close> replaces the payload \<open>[1]\<close> of both. On the constructed controller, whose
  \<^verbatim>\<open>return_queue_\<close> is empty, the cycle stops on the assertion.
\<close>

theorem ClockTick_lrdimm_attaches_to_all_witness:
  "is_LRDIMM (cfg bob_env)
   \<and> getRDResp bob_env (updateBoB bob_env (refresh_ClockTick bob_env (world write_and_read)))
       = ((cmd_at READ 5, [7, 8]), ([], 0))
   \<and> IsValid (cmd_at READ 5) \<and> IsRead (cmd_at READ 5)
   \<and> return_queue write_and_read =
       [(wr 5 [1])\<lparr>complete_cycle := 1\<rparr>, (rd 5)\<lparr>complete_cycle := 1, payload := [1]\<rparr>]
   \<and> ClockTick_lrdimm bob_env write_and_read =
       Inr (write_and_read\<lparr>return_queue :=
              [(wr 5 [7, 8])\<lparr>complete_cycle := 1\<rparr>, (rd 5)\<lparr>complete_cycle := 1, payload := [7, 8]\<rparr>]\<rparr>)
   \<and> (\<exists>s'. ClockTick bob_env write_and_read = Inr s'
         \<and> return_queue s' =
             [(wr 5 [7, 8])\<lparr>complete_cycle := 1\<rparr>,
              (rd 5)\<lparr>complete_cycle := 1, payload := [7, 8]\<rparr>])
   \<and> ClockTick bob_env (Controller_init bob_env ([], 0)) = Inl AssertFailed"
proof -
  have t: "\<exists>s'. ClockTick bob_env write_and_read = Inr s'
         \<and> return_queue s' =
             [(wr 5 [7, 8])\<lparr>complete_cycle := 1\<rparr>,
              (rd 5)\<lparr>complete_cycle := 1, payload := [7, 8]\<rparr>]"
    by (simp add: write_and_read_def model_defs attach_resp_eq)
  have a: "is_LRDIMM (cfg bob_env)"
    "getRDResp bob_env (updateBoB bob_env (refresh_ClockTick bob_env (world write_and_read)))
       = ((cmd_at READ 5, [7, 8]), ([], 0))"
    "IsValid (cmd_at READ 5)" "IsRead (cmd_at READ 5)"
    by (simp_all add: write_and_read_def model_defs)
  have q: "return_queue write_and_read =
       [(wr 5 [1])\<lparr>complete_cycle := 1\<rparr>, (rd 5)\<lparr>complete_cycle := 1, payload := [1]\<rparr>]"
    "world write_and_read = ([], 0)" "refresh_ClockTick bob_env = (\<lambda>w. w)"
    by (simp_all add: write_and_read_def model_defs)
  have w: "write_and_read\<lparr>world := ([], 0)\<rparr> = write_and_read"
    using q(2) [symmetric] by simp
  have r: "ClockTick_lrdimm bob_env write_and_read =
       Inr (write_and_read\<lparr>return_queue :=
              [(wr 5 [7, 8])\<lparr>complete_cycle := 1\<rparr>, (rd 5)\<lparr>complete_cycle := 1, payload := [7, 8]\<rparr>]\<rparr>)"
    using ClockTick_lrdimm_attaches_to_all [OF a]
    by (simp add: q w wr_def rd_def cmd_at_def)
  have b: "getRDResp bob_env
             (updateBoB bob_env (refresh_ClockTick bob_env (world (Controller_init bob_env ([], 0)))))
             = ((cmd_at READ 5, [7, 8]), ([], 0))"
    by (simp add: model_defs)
  have rq0: "return_queue (Controller_init bob_env ([], 0)) = []"
    by (simp add: Controller_init_def Let_def)
  have e: "ClockTick bob_env (Controller_init bob_env ([], 0)) = Inl AssertFailed"
    using ClockTick_lrdimm_attaches_to_all [OF a(1) b a(3,4)]
    by (simp add: rq0)
  from a q(1) r t e show ?thesis by blast
qed

section \<open>ScheduleTransaction: writes and pending reads\<close>

text \<open>
  Claim C1, as the code has it. With split queues, in every reachable state, a write
  command (\<^verbatim>\<open>WRITE\<close> or \<^verbatim>\<open>WRITE_PRECHARGE\<close>) that \<^verbatim>\<open>ScheduleTransaction\<close> hands to the
  command queue has no entry of its address in \<^verbatim>\<open>pending_rd_q_\<close>, before the call and
  after it. With a unified queue the code does not look at \<^verbatim>\<open>pending_rd_q_\<close>.
\<close>

theorem scheduled_write_has_no_pending_read:
  assumes "reachable env s" and "\<not> is_unified_queue s"
    and "c \<in> set (scheduled env s)" and "IsWrite c"
  shows "mm_count (pending_rd_q s) (hex_addr c) = 0
         \<and> pending_rd_q (ScheduleTransaction env s) = pending_rd_q s"
proof -
  have "mrs_only s"
    using assms(1) reachable_inv by blast
  then have "mm_count (pending_rd_q s) (hex_addr c) = 0"
    using assms(2-4) by (rule scheduled_write_guarded)
  then show ?thesis
    by (simp add: ScheduleTransaction_frame)
qed

text \<open>
  Claim C1, two instances with split queues. The write buffer is full and no read
  is pending: the write of address 5 goes to the command queue. The write buffer is
  full and a read of address 5 is pending: nothing goes to the command queue and
  \<^verbatim>\<open>write_draining_\<close> is 0 after the call.
\<close>

theorem scheduled_write_has_no_pending_read_witness:
  "reachable split_env full_write_buffer \<and> \<not> is_unified_queue full_write_buffer
   \<and> scheduled split_env full_write_buffer = [cmd_at WRITE 5]
   \<and> IsWrite (cmd_at WRITE 5)
   \<and> mm_count (pending_rd_q full_write_buffer) (hex_addr (cmd_at WRITE 5)) = 0
   \<and> reachable split_env blocked_write \<and> \<not> is_unified_queue blocked_write
   \<and> mm_count (pending_rd_q blocked_write) 5 = 1
   \<and> map addr (items (write_buffer blocked_write)) = [5, 6]
   \<and> scheduled split_env blocked_write = []
   \<and> write_draining (ScheduleTransaction split_env blocked_write) = 0"
proof -
  have r: "reachable split_env full_write_buffer" "reachable split_env blocked_write"
    unfolding full_write_buffer_def blocked_write_def by (rule reachable_state_after)+
  have a: "\<not> is_unified_queue full_write_buffer"
    "scheduled split_env full_write_buffer = [cmd_at WRITE 5]"
    "IsWrite (cmd_at WRITE 5)"
    by (simp_all add: full_write_buffer_def model_defs)
  have m: "cmd_at WRITE 5 \<in> set (scheduled split_env full_write_buffer)"
    by (simp add: a(2))
  have z: "mm_count (pending_rd_q full_write_buffer) (hex_addr (cmd_at WRITE 5)) = 0"
    using scheduled_write_has_no_pending_read [OF r(1) a(1) m a(3)] by simp
  have b: "\<not> is_unified_queue blocked_write"
    "mm_count (pending_rd_q blocked_write) 5 = 1"
    "map addr (items (write_buffer blocked_write)) = [5, 6]"
    "scheduled split_env blocked_write = []"
    "write_draining (ScheduleTransaction split_env blocked_write) = 0"
    by (simp_all add: blocked_write_def model_defs)
  from r a z b show ?thesis by blast
qed

text \<open>
  Claim C1 as stated fails with a unified queue: the read of address 5 went to the
  command queue one cycle ago and is not issued yet, so its entry is still in
  \<^verbatim>\<open>pending_rd_q_\<close>; \<^verbatim>\<open>ScheduleTransaction\<close> hands the write of address 5 to the command
  queue all the same.
\<close>

theorem unified_write_scheduled_with_pending_read:
  "reachable unified_env unified_read_write
   \<and> is_unified_queue unified_read_write
   \<and> scheduled unified_env unified_read_write = [cmd_at WRITE 5]
   \<and> IsWrite (cmd_at WRITE 5)
   \<and> mm_count (pending_rd_q unified_read_write) (hex_addr (cmd_at WRITE 5)) = 1
   \<and> mm_count (pending_rd_q (ScheduleTransaction unified_env unified_read_write))
        (hex_addr (cmd_at WRITE 5)) = 1"
proof -
  have r: "reachable unified_env unified_read_write"
    unfolding unified_read_write_def by (rule reachable_state_after)
  have a: "is_unified_queue unified_read_write"
    "scheduled unified_env unified_read_write = [cmd_at WRITE 5]"
    "IsWrite (cmd_at WRITE 5)"
    "mm_count (pending_rd_q unified_read_write) (hex_addr (cmd_at WRITE 5)) = 1"
    "mm_count (pending_rd_q (ScheduleTransaction unified_env unified_read_write))
        (hex_addr (cmd_at WRITE 5)) = 1"
    by (simp_all add: unified_read_write_def model_defs)
  from r a show ?thesis by blast
qed

section \<open>ClockTick: the second command of a cycle\<close>

lemma IssueCommand_trace:
  "IssueCommand env cmd s = Inr s' \<Longrightarrow>
   cmd_trace s' = cmd_trace s @ [(clk s, cmd)] \<and> clk s' = clk s"
  by (auto simp: IssueCommand_eq split: if_splits option.splits)

lemma ClockTick_lrdimm_trace:
  "ClockTick_lrdimm env s = Inr s' \<Longrightarrow> cmd_trace s' = cmd_trace s \<and> clk s' = clk s"
  by (auto simp: ClockTick_lrdimm_def Let_def split: if_splits)

text \<open>
  Whatever predicate \<^verbatim>\<open>IsReadWrite()\<close> is, the condition "the values of the two
  commands differ" is not the condition "a read with a write, or a write with a
  read": an \<^verbatim>\<open>ACTIVATE\<close> command has the value of the read or of the write.
\<close>

lemma no_predicate_pairs_reads_with_writes:
  "\<not> (\<forall>c1 c2. IsValid c1 \<and> IsValid c2 \<longrightarrow>
         ((P c2 \<noteq> P c1) \<longleftrightarrow> (IsRead c1 \<and> IsWrite c2) \<or> (IsWrite c1 \<and> IsRead c2)))"
proof
  assume h: "\<forall>c1 c2. IsValid c1 \<and> IsValid c2 \<longrightarrow>
         ((P c2 \<noteq> P c1) \<longleftrightarrow> (IsRead c1 \<and> IsWrite c2) \<or> (IsWrite c1 \<and> IsRead c2))"
  let ?r = "cmd_at READ 0" and ?w = "cmd_at WRITE 0" and ?a = "cmd_at ACTIVATE 0"
  have v: "IsValid ?r" "IsValid ?w" "IsValid ?a" "IsRead ?r" "IsWrite ?w"
    "\<not> IsRead ?a" "\<not> IsWrite ?a" "\<not> IsWrite ?r" "\<not> IsRead ?w"
    by (simp_all add: IsValid_def IsRead_def IsWrite_def cmd_at_def)
  from h v have "P ?w \<noteq> P ?r" by blast
  moreover from h v have "P ?a = P ?r" by blast
  moreover from h v have "P ?a = P ?w" by blast
  ultimately show False by simp
qed

text \<open>
  Claim C8, as the code has it. With \<^verbatim>\<open>enable_hbm_dual_cmd\<close>, let \<open>cmd\<close> be the command
  that \<^verbatim>\<open>ClockTick\<close> issues first and \<open>second_cmd\<close> the valid command that the command
  queue hands out next. The second command is issued in the same cycle exactly when
  \<^verbatim>\<open>IsReadWrite()\<close> of the two commands differs: the command trace of the cycle holds
  \<open>cmd\<close>, and behind it \<open>second_cmd\<close> in that case and nothing otherwise.
\<close>

theorem ClockTick_issue_second_command:
  assumes "enable_hbm_dual_cmd (cfg env)"
    and "ClockTick_lrdimm env (s0\<lparr>world := refresh_ClockTick env (world s0)\<rparr>) = Inr s"
    and "select_command env s = (cmd, w1)" and "IsValid cmd"
    and "IssueCommand env cmd (s\<lparr>world := w1\<rparr>) = Inr s2"
    and "GetCommandToIssue env
           (if is_LRDIMM (cfg env) then recDDRcmd env cmd (world s2) else world s2)
         = (second_cmd, w3)"
    and "IsValid second_cmd"
  shows "ClockTick_issue env s =
           (if IsReadWrite env second_cmd \<noteq> IsReadWrite env cmd
            then (case IssueCommand env second_cmd (s2\<lparr>world := w3\<rparr>) of
                    Inl e \<Rightarrow> Inl e
                  | Inr s5 \<Rightarrow> Inr (True, s5))
            else Inr (True, s2\<lparr>world := w3\<rparr>))
     \<and> (\<forall>s'. ClockTick env s0 = Inr s' \<longrightarrow>
          cmd_trace s' =
            cmd_trace s0 @ (clk s0, cmd) #
              (if IsReadWrite env second_cmd \<noteq> IsReadWrite env cmd
               then [(clk s0, second_cmd)] else []))"
proof -
  have i: "ClockTick_issue env s =
           (if IsReadWrite env second_cmd \<noteq> IsReadWrite env cmd
            then (case IssueCommand env second_cmd (s2\<lparr>world := w3\<rparr>) of
                    Inl e \<Rightarrow> Inl e
                  | Inr s5 \<Rightarrow> Inr (True, s5))
            else Inr (True, s2\<lparr>world := w3\<rparr>))"
    using assms(1,3-7) by (cases "is_LRDIMM (cfg env)") (simp_all add: ClockTick_issue_def Let_def)
  have t0: "cmd_trace s = cmd_trace s0" "clk s = clk s0"
    using ClockTick_lrdimm_trace [OF assms(2)] by simp_all
  have t2: "cmd_trace s2 = cmd_trace s0 @ [(clk s0, cmd)]" "clk s2 = clk s0"
    using IssueCommand_trace [OF assms(5)] t0 by simp_all
  have t: "cmd_trace s' =
            cmd_trace s0 @ (clk s0, cmd) #
              (if IsReadWrite env second_cmd \<noteq> IsReadWrite env cmd
               then [(clk s0, second_cmd)] else [])"
    if "ClockTick env s0 = Inr s'" for s'
  proof -
    have c: "ClockTick env s0 =
        (case ClockTick_issue env s of
           Inl e \<Rightarrow> Inl e
         | Inr issued \<Rightarrow>
             (case ClockTick_sref env (fst issued) (ClockTick_power env (snd issued)) of
                Inl e \<Rightarrow> Inl e
              | Inr s3 \<Rightarrow>
                  (let s4 = ScheduleTransaction env s3;
                       s5 = s4\<lparr>clk := clk s4 + 1\<rparr>
                   in Inr (s5\<lparr>world := cmd_queue_ClockTick env (world s5)\<rparr>))))"
      by (simp add: ClockTick_def assms(2))
    from that c obtain p where p: "ClockTick_issue env s = Inr p"
      by (cases "ClockTick_issue env s") simp_all
    obtain b s3 where bs: "p = (b, s3)" by (cases p)
    have steps1: "ClockTick_issue env s = Inr (b, s3)"
      using p bs by simp
    from steps1 i have b: "b"
      by (auto split: if_splits sum.splits)
    have sr: "ClockTick_sref env b (ClockTick_power env s3) = Inr (ClockTick_power env s3)"
      using b by (simp add: ClockTick_sref_def)
    have "s' = (let s4 = ScheduleTransaction env (ClockTick_power env s3);
                       s5 = s4\<lparr>clk := clk s4 + 1\<rparr>
                   in s5\<lparr>world := cmd_queue_ClockTick env (world s5)\<rparr>)"
      using that c by (auto simp: p bs sr Let_def)
    then have "cmd_trace s' = cmd_trace (ScheduleTransaction env (ClockTick_power env s3))"
      by (simp add: Let_def)
    then have steps3: "cmd_trace s' = cmd_trace s3"
      by (simp add: ScheduleTransaction_frame ClockTick_power_def)
    have "cmd_trace s3 =
            cmd_trace s0 @ (clk s0, cmd) #
              (if IsReadWrite env second_cmd \<noteq> IsReadWrite env cmd
               then [(clk s0, second_cmd)] else [])"
    proof (cases "IsReadWrite env second_cmd \<noteq> IsReadWrite env cmd")
      case True
      with steps1 i have "IssueCommand env second_cmd (s2\<lparr>world := w3\<rparr>) = Inr s3"
        by (auto split: sum.splits)
      from IssueCommand_trace [OF this] True t2 show ?thesis by simp
    next
      case False
      with steps1 i have "s3 = s2\<lparr>world := w3\<rparr>" by simp
      with False t2 show ?thesis by simp
    qed
    with steps3 show ?thesis by simp
  qed
  from i t show ?thesis by blast
qed

text \<open>
  Claim C8, an instance: the command queue holds the mode register command and the
  read of address 5; \<^verbatim>\<open>IsReadWrite()\<close> holds of the read only, and both are issued in
  cycle 2.
\<close>

theorem ClockTick_issue_second_command_witness:
  "enable_hbm_dual_cmd (cfg hbm_env)
   \<and> ClockTick_lrdimm hbm_env (hbm_mrs_read\<lparr>world := refresh_ClockTick hbm_env (world hbm_mrs_read)\<rparr>)
       = Inr hbm_mrs_read
   \<and> select_command hbm_env hbm_mrs_read = (cmd_at MRS_CMD 9, ([cmd_at READ 5], 0))
   \<and> IsValid (cmd_at MRS_CMD 9)
   \<and> IssueCommand hbm_env (cmd_at MRS_CMD 9) (hbm_mrs_read\<lparr>world := ([cmd_at READ 5], 0)\<rparr>)
       = Inr (hbm_mrs_read\<lparr>world := ([cmd_at READ 5], 0), cmd_trace := [(2, cmd_at MRS_CMD 9)]\<rparr>)
   \<and> GetCommandToIssue hbm_env ([cmd_at READ 5], 0) = (cmd_at READ 5, ([], 0))
   \<and> IsValid (cmd_at READ 5)
   \<and> IsReadWrite hbm_env (cmd_at READ 5) \<and> \<not> IsReadWrite hbm_env (cmd_at MRS_CMD 9)
   \<and> (\<exists>s'. ClockTick hbm_env hbm_mrs_read = Inr s'
         \<and> cmd_trace s' = [(2, cmd_at MRS_CMD 9), (2, cmd_at READ 5)])"
proof -
  have e: "enable_hbm_dual_cmd (cfg hbm_env)" "\<not> is_LRDIMM (cfg hbm_env)"
    by (simp_all add: model_defs)
  have w: "world hbm_mrs_read = ([cmd_at MRS_CMD 9, cmd_at READ 5], 0)"
    "cmd_trace hbm_mrs_read = []" "clk hbm_mrs_read = 2"
    "pending_rd_q hbm_mrs_read = [(5, rd 5)]"
    by (simp_all add: hbm_mrs_read_def model_defs)
  have l: "ClockTick_lrdimm hbm_env
             (hbm_mrs_read\<lparr>world := refresh_ClockTick hbm_env (world hbm_mrs_read)\<rparr>)
           = Inr hbm_mrs_read"
    by (simp add: ClockTick_lrdimm_def hbm_env_def fifo_env_def split_cfg_def)
  have s: "select_command hbm_env hbm_mrs_read = (cmd_at MRS_CMD 9, ([cmd_at READ 5], 0))"
    by (simp add: select_command_def w Let_def hbm_env_def fifo_env_def Command_default_def IsValid_def)
  have v: "IsValid (cmd_at MRS_CMD 9)" "IsValid (cmd_at READ 5)"
    "IsReadWrite hbm_env (cmd_at READ 5)" "\<not> IsReadWrite hbm_env (cmd_at MRS_CMD 9)"
    by (simp_all add: model_defs)
  have i: "IssueCommand hbm_env (cmd_at MRS_CMD 9) (hbm_mrs_read\<lparr>world := ([cmd_at READ 5], 0)\<rparr>)
       = Inr (hbm_mrs_read\<lparr>world := ([cmd_at READ 5], 0), cmd_trace := [(2, cmd_at MRS_CMD 9)]\<rparr>)"
    by (simp add: IssueCommand_eq IsRead_def IsWrite_def cmd_at_def w hbm_env_def fifo_env_def)
  have g: "GetCommandToIssue hbm_env ([cmd_at READ 5], 0) = (cmd_at READ 5, ([], 0))"
    by (simp add: hbm_env_def fifo_env_def)
  have g': "GetCommandToIssue hbm_env
           (if is_LRDIMM (cfg hbm_env)
            then recDDRcmd hbm_env (cmd_at MRS_CMD 9)
                   (world (hbm_mrs_read\<lparr>world := ([cmd_at READ 5], 0),
                                         cmd_trace := [(2, cmd_at MRS_CMD 9)]\<rparr>))
            else world (hbm_mrs_read\<lparr>world := ([cmd_at READ 5], 0),
                                      cmd_trace := [(2, cmd_at MRS_CMD 9)]\<rparr>))
         = (cmd_at READ 5, ([], 0))"
    using g e(2) by simp
  have x: "\<exists>s'. ClockTick hbm_env hbm_mrs_read = Inr s'"
    by (simp add: hbm_mrs_read_def model_defs)
  then obtain s' where s': "ClockTick hbm_env hbm_mrs_read = Inr s'" by blast
  from ClockTick_issue_second_command [OF e(1) l s v(1) i g' v(2)] s' v(3,4)
  have "cmd_trace s' = [(2, cmd_at MRS_CMD 9), (2, cmd_at READ 5)]"
    by (simp add: w)
  with s' have "\<exists>s'. ClockTick hbm_env hbm_mrs_read = Inr s'
         \<and> cmd_trace s' = [(2, cmd_at MRS_CMD 9), (2, cmd_at READ 5)]"
    by blast
  with e(1) l s v i g show ?thesis by blast
qed

text \<open>
  Claim C8 as stated fails, where \<^verbatim>\<open>IsReadWrite()\<close> holds of the read and the write
  commands. The command queue holds the read of address 5 and the write of address
  6: the read is issued in cycle 2, the write is not, and its entry stays in
  \<^verbatim>\<open>pending_wr_q_\<close>. The command queue holds the mode register command and the read of
  address 5: both are issued in cycle 2, though the first is neither a read nor a
  write.
\<close>

theorem read_not_paired_with_write:
  "enable_hbm_dual_cmd (cfg hbm_env)
   \<and> reachable hbm_env hbm_read_write
   \<and> select_command hbm_env hbm_read_write = (cmd_at READ 5, ([cmd_at WRITE 6], 0))
   \<and> IsValid (cmd_at READ 5) \<and> IsRead (cmd_at READ 5)
   \<and> GetCommandToIssue hbm_env ([cmd_at WRITE 6], 0) = (cmd_at WRITE 6, ([], 0))
   \<and> IsValid (cmd_at WRITE 6) \<and> IsWrite (cmd_at WRITE 6)
   \<and> mm_count (pending_wr_q hbm_read_write) 6 = 1
   \<and> (\<exists>s'. ClockTick hbm_env hbm_read_write = Inr s'
         \<and> cmd_trace s' = [(2, cmd_at READ 5)]
         \<and> mm_count (pending_wr_q s') 6 = 1)
   \<and> reachable hbm_env hbm_mrs_read
   \<and> select_command hbm_env hbm_mrs_read = (cmd_at MRS_CMD 9, ([cmd_at READ 5], 0))
   \<and> \<not> IsRead (cmd_at MRS_CMD 9) \<and> \<not> IsWrite (cmd_at MRS_CMD 9)
   \<and> (\<exists>s'. ClockTick hbm_env hbm_mrs_read = Inr s'
         \<and> cmd_trace s' = [(2, cmd_at MRS_CMD 9), (2, cmd_at READ 5)])"
proof -
  have r: "reachable hbm_env hbm_read_write" "reachable hbm_env hbm_mrs_read"
    unfolding hbm_read_write_def hbm_mrs_read_def by (rule reachable_state_after)+
  have a: "enable_hbm_dual_cmd (cfg hbm_env)"
    "IsValid (cmd_at READ 5)" "IsRead (cmd_at READ 5)"
    "GetCommandToIssue hbm_env ([cmd_at WRITE 6], 0) = (cmd_at WRITE 6, ([], 0))"
    "IsValid (cmd_at WRITE 6)" "IsWrite (cmd_at WRITE 6)"
    "\<not> IsRead (cmd_at MRS_CMD 9)" "\<not> IsWrite (cmd_at MRS_CMD 9)"
    by (simp_all add: model_defs)
  have b: "select_command hbm_env hbm_read_write = (cmd_at READ 5, ([cmd_at WRITE 6], 0))"
    "mm_count (pending_wr_q hbm_read_write) 6 = 1"
    "\<exists>s'. ClockTick hbm_env hbm_read_write = Inr s'
         \<and> cmd_trace s' = [(2, cmd_at READ 5)]
         \<and> mm_count (pending_wr_q s') 6 = 1"
    by (simp_all add: hbm_read_write_def model_defs)
  have c: "select_command hbm_env hbm_mrs_read = (cmd_at MRS_CMD 9, ([cmd_at READ 5], 0))"
    "\<exists>s'. ClockTick hbm_env hbm_mrs_read = Inr s'
         \<and> cmd_trace s' = [(2, cmd_at MRS_CMD 9), (2, cmd_at READ 5)]"
    by (simp_all add: hbm_mrs_read_def model_defs)
  from r a b c show ?thesis by blast
qed

end
